theory Spec2Isabelle
  imports Complex_Main "HOL-Library.Word"
begin

unbundle bit_operations_syntax

section \<open>Common types\<close>

type_synonym byte = "8 word"
type_synonym bytes = "byte list"

text \<open>A Go \<^verbatim>\<open>error\<close> that is not nil, by its message.\<close>

type_synonym error = string

section \<open>Reduction committee (pkg/core/consensus/reduction/committee.go)\<close>

text \<open>
  \<^verbatim>\<open>const committeeSize = 64\<close>. Of \<^verbatim>\<open>user.Provisioners\<close> the reduction
  committee reads only \<^verbatim>\<open>len(provisioners.Members)\<close>, so the member type is left
  open.
\<close>

definition committeeSize :: nat where
  "committeeSize = 64"

record 'm Provisioners =
  Members :: "'m list"

text \<open>\<^verbatim>\<open>reductionCommittee.size\<close>: the number of members, capped at 64.\<close>

definition size_rc :: "'m Provisioners \<Rightarrow> nat" where
  "size_rc provisioners =
     (let size = length (Members provisioners)
      in if size > committeeSize then committeeSize else size)"

text \<open>
  \<^verbatim>\<open>reductionCommittee.Quorum\<close>: \<^verbatim>\<open>int(float64(r.size(provisioners)) * 0.75)\<close>.
  The size is at most 64 and 0.75 is a dyadic fraction, so the float64 product is exact
  and equals the real product; the conversion to \<^verbatim>\<open>int\<close> truncates, which on a
  non-negative value is the floor.
\<close>

definition Quorum :: "'m Provisioners \<Rightarrow> int" where
  "Quorum provisioners = \<lfloor>real (size_rc provisioners) * 0.75\<rfloor>"

text \<open>
  \<^verbatim>\<open>reductionCommittee\<close> embeds a \<^verbatim>\<open>*committee.Cache\<close> and holds the slice
  \<^verbatim>\<open>committees []user.VotingCommittee\<close>. The cache and the voting committee are
  types of other packages, left open here; \<^verbatim>\<open>Cache.PregenerateCommittees\<close> and
  \<^verbatim>\<open>VotingCommittee.IsMember\<close> are taken as parameters.
\<close>

record ('c, 'vc) reductionCommittee =
  Cache :: 'c
  committees :: "'vc list"

text \<open>\<^verbatim>\<open>newReductionCommittee\<close> sets the cache only: the slice is nil, of length 0.\<close>

definition newReductionCommittee :: "'c \<Rightarrow> ('c, 'vc) reductionCommittee" where
  "newReductionCommittee NewCache = \<lparr>Cache = NewCache, committees = []\<rparr>"

datatype panic = index_out_of_range

text \<open>
  \<^verbatim>\<open>reductionCommittee.IsMember\<close>. \<^verbatim>\<open>step\<close> is a \<^verbatim>\<open>uint8\<close>: \<^verbatim>\<open>uint8(len(r.committees))\<close>
  truncates, \<^verbatim>\<open>step - startingStep + 8\<close> and \<^verbatim>\<open>step-1\<close> wrap around. The run-time
  panic of an index out of range is the result \<open>Inl index_out_of_range\<close>; otherwise the
  result is the boolean together with the receiver, whose cache the call may have filled.
\<close>

definition IsMember ::
  "('c \<Rightarrow> 'm Provisioners \<Rightarrow> 64 word \<Rightarrow> 8 word \<Rightarrow> 8 word \<Rightarrow> nat \<Rightarrow> 'c) \<Rightarrow>
   ('vc \<Rightarrow> bytes \<Rightarrow> bool) \<Rightarrow>
   ('c, 'vc) reductionCommittee \<Rightarrow> 'm Provisioners \<Rightarrow> bytes \<Rightarrow> 64 word \<Rightarrow> 8 word \<Rightarrow>
   panic + (bool \<times> ('c, 'vc) reductionCommittee)" where
  "IsMember PregenerateCommittees vcIsMember r provisioners pubKeyBLS rnd step =
     (let r' =
        (if unat step > length (committees r) then
           (let startingStep = (of_nat (length (committees r)) :: 8 word);
                amount = step - startingStep + 8
            in r\<lparr>Cache := PregenerateCommittees (Cache r) provisioners rnd startingStep
                             amount (size_rc provisioners)\<rparr>)
         else r);
          i = unat (step - 1)
      in if i < length (committees r')
         then Inr (vcIsMember (committees r' ! i) pubKeyBLS, r')
         else Inl index_out_of_range)"

section \<open>Reputation moderator (pkg/core/consensus/reputation)\<close>

text \<open>
  \<^verbatim>\<open>hex.EncodeToString\<close> of the Go standard library: two lower-case digits per byte,
  the high nibble first.
\<close>

definition hextable :: string where
  "hextable = ''0123456789abcdef''"

definition EncodeToString :: "bytes \<Rightarrow> string" where
  "EncodeToString src =
     concat (map (\<lambda>v. [hextable ! unat (drop_bit 4 v), hextable ! unat (v AND 0x0f)]) src)"

text \<open>\<^verbatim>\<open>const maxStrikes uint8 = 3\<close>\<close>

definition maxStrikes :: "8 word" where
  "maxStrikes = 3"

text \<open>
  The moderator's state is the map \<^verbatim>\<open>strikes map[string]uint8\<close>; reading a key that is
  not in a Go map yields the zero value. What the moderator publishes on the event bus is
  returned as a list of (topic, payload) pairs.
\<close>

record moderator =
  strikes :: "string \<rightharpoonup> 8 word"

datatype reputation_topic = RemoveProvisionerTopic

definition strikes_at :: "moderator \<Rightarrow> string \<Rightarrow> 8 word" where
  "strikes_at m k = (case strikes m k of None \<Rightarrow> 0 | Some c \<Rightarrow> c)"

text \<open>\<^verbatim>\<open>newModerator\<close>: an empty strikes map.\<close>

definition newModerator :: moderator where
  "newModerator = \<lparr>strikes = Map.empty\<rparr>"

text \<open>
  \<^verbatim>\<open>moderator.addStrike\<close>: \<^verbatim>\<open>m.strikes[absenteeStr]++\<close> on a \<^verbatim>\<open>uint8\<close>, then a
  publication of the absentee's bytes when the count is at least \<^verbatim>\<open>maxStrikes\<close>.
\<close>

definition addStrike ::
  "bytes \<Rightarrow> moderator \<Rightarrow> moderator \<times> (reputation_topic \<times> bytes) list" where
  "addStrike absentee m =
     (let absenteeStr = EncodeToString absentee;
          m' = m\<lparr>strikes := (strikes m)(absenteeStr \<mapsto> strikes_at m absenteeStr + 1)\<rparr>
      in if strikes_at m' absenteeStr \<ge> maxStrikes
         then (m', [(RemoveProvisionerTopic, absentee)])
         else (m', []))"

text \<open>
  \<^verbatim>\<open>moderator.listen\<close> selects forever on the round channel and the absentee channel.
  The model runs it on the finite sequence of values received so far.
\<close>

datatype moderator_event = RoundChan "64 word" | AbsenteeChan bytes

fun listen_step ::
  "moderator_event \<Rightarrow> moderator \<Rightarrow> moderator \<times> (reputation_topic \<times> bytes) list" where
  "listen_step (RoundChan r) m = (m\<lparr>strikes := Map.empty\<rparr>, [])"
| "listen_step (AbsenteeChan absentee) m = addStrike absentee m"

fun listen ::
  "moderator_event list \<Rightarrow> moderator \<Rightarrow> moderator \<times> (reputation_topic \<times> bytes) list" where
  "listen [] m = (m, [])"
| "listen (e # es) m =
     (let (m', out) = listen_step e m; (m'', outs) = listen es m' in (m'', out @ outs))"

section \<open>Voucher client (cmd/dusk, the voucher seeder handshake)\<close>

subsection \<open>SHA-256 as the Go standard library computes it\<close>

text \<open>
  \<^verbatim>\<open>crypto/sha256\<close>: the generic block function and the padding of \<^verbatim>\<open>checkSum\<close>.
  A \<^verbatim>\<open>uint32\<close> is a natural number below \<open>2 ^ 32\<close>, with the wrap-around of the
  additions written out.
\<close>

definition add32 :: "nat \<Rightarrow> nat \<Rightarrow> nat" where
  "add32 x y = (x + y) mod 4294967296"

definition not32 :: "nat \<Rightarrow> nat" where
  "not32 x = 4294967295 - x"

text \<open>\<^verbatim>\<open>bits.RotateLeft32(x, -k)\<close>, a rotation to the right by \<open>k\<close>.\<close>

definition RotateRight32 :: "nat \<Rightarrow> nat \<Rightarrow> nat" where
  "RotateRight32 x k = (x div 2 ^ k) OR ((x * 2 ^ (32 - k)) mod 4294967296)"

definition K_sha256 :: "nat list" where
  "K_sha256 =
    [1116352408, 1899447441, 3049323471, 3921009573, 961987163, 1508970993, 2453635748,
     2870763221, 3624381080, 310598401, 607225278, 1426881987, 1925078388, 2162078206,
     2614888103, 3248222580, 3835390401, 4022224774, 264347078, 604807628, 770255983,
     1249150122, 1555081692, 1996064986, 2554220882, 2821834349, 2952996808,
     3210313671, 3336571891, 3584528711, 113926993, 338241895, 666307205, 773529912,
     1294757372, 1396182291, 1695183700, 1986661051, 2177026350, 2456956037,
     2730485921, 2820302411, 3259730800, 3345764771, 3516065817, 3600352804,
     4094571909, 275423344, 430227734, 506948616, 659060556, 883997877, 958139571,
     1322822218, 1537002063, 1747873779, 1955562222, 2024104815, 2227730452,
     2361852424, 2428436474, 2756734187, 3204031479, 3329325298]"

definition init_sha256 :: "nat list" where
  "init_sha256 =
    [1779033703, 3144134277, 1013904242, 2773480762, 1359893119, 2600822924, 528734635,
     1541459225]"

text \<open>
  The message schedule, kept as the window \<open>w[i], \<dots>, w[i+15]\<close>: the word that follows
  is \<^verbatim>\<open>t1 + w[i-7] + t2 + w[i-16]\<close> at \<open>i + 16\<close>.
\<close>

definition next_w :: "nat list \<Rightarrow> nat" where
  "next_w w =
     add32 (add32 (add32
       (RotateRight32 (w ! 14) 17 XOR RotateRight32 (w ! 14) 19 XOR (w ! 14) div 2 ^ 10)
       (w ! 9))
       (RotateRight32 (w ! 1) 7 XOR RotateRight32 (w ! 1) 18 XOR (w ! 1) div 2 ^ 3))
       (w ! 0)"

definition t1_sha256 :: "nat \<Rightarrow> nat \<Rightarrow> nat \<Rightarrow> nat \<Rightarrow> nat \<Rightarrow> nat \<Rightarrow> nat" where
  "t1_sha256 h e f g k w =
     add32 (add32 (add32 (add32 h
       (RotateRight32 e 6 XOR RotateRight32 e 11 XOR RotateRight32 e 25))
       ((e AND f) XOR (not32 e AND g))) k) w"

definition t2_sha256 :: "nat \<Rightarrow> nat \<Rightarrow> nat \<Rightarrow> nat" where
  "t2_sha256 a b c =
     add32 (RotateRight32 a 2 XOR RotateRight32 a 13 XOR RotateRight32 a 22)
       ((a AND b) XOR (a AND c) XOR (b AND c))"

text \<open>The assignment \<^verbatim>\<open>h = g; g = f; f = e; e = d + t1; d = c; c = b; b = a; a = t1 + t2\<close>
  on the state \<open>[a, b, c, d, e, f, g, h]\<close>.\<close>

definition shift_state :: "nat \<Rightarrow> nat \<Rightarrow> nat list \<Rightarrow> nat list" where
  "shift_state t1 t2 s =
     [add32 t1 t2, s ! 0, s ! 1, s ! 2, add32 (s ! 3) t1, s ! 4, s ! 5, s ! 6]"

fun rounds :: "nat list \<Rightarrow> nat list \<Rightarrow> nat list \<Rightarrow> nat list" where
  "rounds [] w s = s"
| "rounds (k # ks) w s =
     rounds ks (tl w @ [next_w w])
       (shift_state (t1_sha256 (s ! 7) (s ! 4) (s ! 5) (s ! 6) k (w ! 0))
                    (t2_sha256 (s ! 0) (s ! 1) (s ! 2)) s)"

text \<open>The sixteen big-endian words of a chunk.\<close>

fun be32 :: "bytes \<Rightarrow> nat list" where
  "be32 (b0 # b1 # b2 # b3 # bs) =
     (unat b0 * 16777216 + unat b1 * 65536 + unat b2 * 256 + unat b3) # be32 bs"
| "be32 bs = []"

text \<open>One chunk of \<^verbatim>\<open>blockGeneric\<close>, and its loop \<^verbatim>\<open>for len(p) >= chunk\<close>.\<close>

definition block_sha256 :: "nat list \<Rightarrow> bytes \<Rightarrow> nat list" where
  "block_sha256 h p = map2 add32 h (rounds K_sha256 (be32 p) h)"

function blockGeneric :: "nat list \<Rightarrow> bytes \<Rightarrow> nat list" where
  "blockGeneric h p =
     (if length p \<ge> 64 then blockGeneric (block_sha256 h (take 64 p)) (drop 64 p) else h)"
  by pat_completeness auto
termination
  by (relation "measure (\<lambda>(h, p). length p)") auto

declare blockGeneric.simps [simp del]

text \<open>The padding \<^verbatim>\<open>checkSum\<close> writes: \<open>0x80\<close>, zeros, and the length in bits as a
  big-endian \<^verbatim>\<open>uint64\<close>.\<close>

definition pad_sha256 :: "nat \<Rightarrow> bytes" where
  "pad_sha256 len =
     (let t = (if len mod 64 < 56 then 56 - len mod 64 else 64 + 56 - len mod 64)
      in 0x80 # replicate (t - 1) 0
           @ map (\<lambda>i. of_nat ((len * 8) mod 2 ^ 64 div 2 ^ (8 * (7 - i)))) [0..<8])"

definition PutUint32 :: "nat \<Rightarrow> bytes" where
  "PutUint32 x =
     [of_nat (x div 16777216), of_nat (x div 65536), of_nat (x div 256), of_nat x]"

text \<open>\<^verbatim>\<open>sha256.New\<close>, \<^verbatim>\<open>Write(data)\<close>, \<^verbatim>\<open>Sum(nil)\<close>: the digest of \<open>data\<close>.\<close>

definition Sum256 :: "bytes \<Rightarrow> bytes" where
  "Sum256 data =
     concat (map PutUint32 (blockGeneric init_sha256 (data @ pad_sha256 (length data))))"

subsection \<open>The challenge\<close>

text \<open>The conversions \<^verbatim>\<open>[]byte(s)\<close> and \<^verbatim>\<open>string(b)\<close>; a Go string is a sequence of
  bytes.\<close>

definition bytes_of :: "string \<Rightarrow> bytes" where
  "bytes_of s = map (\<lambda>c. of_nat (of_char c)) s"

definition string_of :: "bytes \<Rightarrow> string" where
  "string_of b = map (\<lambda>v. char_of (unat v)) b"

text \<open>\<^verbatim>\<open>strings.Split(s, sep)\<close> for a separator of one character: the pieces between
  the separators, one piece for a string without separator.\<close>

fun Split :: "string \<Rightarrow> char \<Rightarrow> string list" where
  "Split [] sep = [[]]"
| "Split (c # cs) sep =
     (if c = sep then [] # Split cs sep
      else (case Split cs sep of [] \<Rightarrow> [[c]] | x # xs \<Rightarrow> (c # x) # xs))"

text \<open>\<^verbatim>\<open>strings.ToUpper\<close> on the characters of the ASCII range; the others stay.\<close>

definition ToUpper :: "string \<Rightarrow> string" where
  "ToUpper s =
     map (\<lambda>c. if 97 \<le> (of_char c :: nat) \<and> (of_char c :: nat) \<le> 122
               then char_of ((of_char c :: nat) - 32) else c) s"

text \<open>
  \<^verbatim>\<open>completeChallenge\<close>. \<^verbatim>\<open>conn.Read\<close> fails or delivers at most 64 bytes into the
  zeroed buffer; \<^verbatim>\<open>conn.Write\<close> may fail on the response. The environment variable
  \<^verbatim>\<open>SEEDER_KEY\<close> and the configured port are arguments. The result is the error
  returned and the bytes passed to \<^verbatim>\<open>conn.Write\<close>, if the function gets that far.
\<close>

definition completeChallenge ::
  "error + bytes \<Rightarrow> (bytes \<Rightarrow> error option) \<Rightarrow> string \<Rightarrow> string \<Rightarrow>
   error option \<times> bytes option" where
  "completeChallenge read write_error SEEDER_KEY Port =
     (case read of
        Inl err \<Rightarrow> (Some err, None)
      | Inr received \<Rightarrow>
          (let buf = take 64 received @ replicate (64 - length received) 0;
               generated = Split (string_of buf) (CHR 0x0A) ! 0;
               digest = Sum256 (bytes_of generated @ bytes_of SEEDER_KEY);
               ret = ToUpper (EncodeToString digest) @ '','' @ Port @ [CHR 0x0A]
           in (write_error (bytes_of ret), Some (bytes_of ret))))"

text \<open>
  The response as the specification words it, on the whole 64-byte challenge.
\<close>

definition spec_response :: "bytes \<Rightarrow> string \<Rightarrow> string \<Rightarrow> bytes" where
  "spec_response challenge SEEDER_KEY Port =
     bytes_of (ToUpper (EncodeToString (Sum256 (challenge @ bytes_of SEEDER_KEY)))
               @ '','' @ Port @ [CHR 0x0A])"

section \<open>Second-step reduction (pkg/core/consensus/reduction/secondstep/step.go)\<close>

text \<open>
  \<^verbatim>\<open>header.Header\<close> of a consensus message, and the messages the phase builds. The
  step votes themselves (\<^verbatim>\<open>message.StepVotes\<close>) and the reduction messages are types of
  other packages, left open.
\<close>

record ConsensusHeader =
  Round :: "64 word"
  Step :: "8 word"
  PubKeyBLS :: bytes
  BlockHash :: bytes

record 'sv StepVotesMsg =
  Header_svm :: ConsensusHeader
  StepVotes :: 'sv

text \<open>\<^verbatim>\<open>reduction.Result\<close>, what the aggregator returns on quorum.\<close>

record 'sv Result =
  Hash_res :: bytes
  SV :: 'sv

record 'sv Agreement =
  Header_agr :: ConsensusHeader
  Signature_agr :: bytes
  VotesPerStep :: "'sv list"

text \<open>
  A \<^verbatim>\<open>message.Message\<close> is a reduction (category \<^verbatim>\<open>topics.Reduction\<close>, payload a
  \<^verbatim>\<open>message.Reduction\<close>) or something else.
\<close>

datatype 'red Message = Reduction_message 'red | Other_message

text \<open>
  What the phase hands to its emitter, in order: the call of \<^verbatim>\<open>SendReduction\<close>, the
  agreement passed to \<^verbatim>\<open>Gossip\<close>, and the call of \<^verbatim>\<open>IncreaseTimeout\<close>.
\<close>

datatype 'sv effect =
    Sent_Reduction "64 word" "8 word" bytes
  | Gossiped "'sv Agreement"
  | Increased_Timeout "64 word"

text \<open>
  What \<^verbatim>\<open>Run\<close> selects on after the queue: an event, the timeout, or the cancelled
  context.
\<close>

datatype 'red input = EvChan "'red Message" | TimeoutChan | CtxDone

text \<open>
  How \<^verbatim>\<open>Run\<close> ends: with the next phase (\<^verbatim>\<open>p.next.Fn(nil), nil\<close>), with an error, with
  \<^verbatim>\<open>nil, nil\<close> on a cancelled context, or with the panic of a failed type assertion; it
  is still blocked in the \<^verbatim>\<open>select\<close> when the inputs received so far do not end it.
\<close>

datatype outcome = Next_Phase | Failed error | Cancelled | Type_Assertion_Panic | Blocked

text \<open>
  The collaborators of the phase: the handler (\<^verbatim>\<open>AmMember\<close>, \<^verbatim>\<open>IsMember\<close>,
  \<^verbatim>\<open>VerifySignature\<close>), the aggregator with its state (\<^verbatim>\<open>NewAggregator\<close>,
  \<^verbatim>\<open>CollectVote\<close>), the emitter (\<^verbatim>\<open>Sign\<close>, and the errors of \<^verbatim>\<open>Gossip\<close> and
  \<^verbatim>\<open>SendReduction\<close>), the keys, \<^verbatim>\<open>StepVotesMsg.IsEmpty\<close>, the sender of a reduction
  and \<^verbatim>\<open>reduction.ShouldProcess\<close>.
\<close>

record ('red, 'sv, 'agg) phase_collaborators =
  AmMember :: "64 word \<Rightarrow> 8 word \<Rightarrow> bool"
  IsMember_handler :: "bytes \<Rightarrow> 64 word \<Rightarrow> 8 word \<Rightarrow> bool"
  VerifySignature :: "'red \<Rightarrow> error option"
  NewAggregator :: 'agg
  CollectVote :: "'agg \<Rightarrow> 'red \<Rightarrow> error + ('sv Result option \<times> 'agg)"
  Sign :: "ConsensusHeader \<Rightarrow> error + bytes"
  Gossip_error :: "'sv Agreement \<Rightarrow> error option"
  SendReduction_error :: "64 word \<Rightarrow> 8 word \<Rightarrow> bytes \<Rightarrow> error option"
  BLSPubKeyBytes :: bytes
  IsEmpty :: "'sv StepVotesMsg \<Rightarrow> bool"
  Sender :: "'red \<Rightarrow> bytes"
  ShouldProcess :: "'red Message \<Rightarrow> 64 word \<Rightarrow> 8 word \<Rightarrow> bool"

text \<open>\<^verbatim>\<open>reduction.EmptyHash\<close>, 32 zero bytes.\<close>

definition EmptyHash :: bytes where
  "EmptyHash = replicate 32 0"

text \<open>\<^verbatim>\<open>stepVotesAreValid\<close>, on its variadic argument; \<^verbatim>\<open>&&\<close> stops at the first false
  conjunct, so the elements are read only when there are two.\<close>

definition stepVotesAreValid ::
  "('red, 'sv, 'agg) phase_collaborators \<Rightarrow> 'sv StepVotesMsg list \<Rightarrow> bool" where
  "stepVotesAreValid env svs =
     (length svs = 2 \<and>
      \<not> IsEmpty env (svs ! 0) \<and>
      \<not> IsEmpty env (svs ! 1) \<and>
      BlockHash (Header_svm (svs ! 0)) \<noteq> EmptyHash \<and>
      BlockHash (Header_svm (svs ! 1)) \<noteq> EmptyHash)"

text \<open>\<^verbatim>\<open>Phase.createStepVoteMessage\<close>\<close>

definition createStepVoteMessage ::
  "('red, 'sv, 'agg) phase_collaborators \<Rightarrow> 'sv Result option \<Rightarrow> 64 word \<Rightarrow> 8 word \<Rightarrow>
   'sv StepVotesMsg option" where
  "createStepVoteMessage env r rnd step =
     (case r of
        None \<Rightarrow> None
      | Some res \<Rightarrow>
          Some \<lparr>Header_svm = \<lparr>Round = rnd, Step = step, PubKeyBLS = BLSPubKeyBytes env,
                               BlockHash = Hash_res res\<rparr>,
                StepVotes = SV res\<rparr>)"

text \<open>\<^verbatim>\<open>Phase.collectReduction\<close>; the aggregator's state is passed along.\<close>

definition collectReduction ::
  "('red, 'sv, 'agg) phase_collaborators \<Rightarrow> 'agg \<Rightarrow> 'red \<Rightarrow> 64 word \<Rightarrow> 8 word \<Rightarrow>
   error + ('sv StepVotesMsg option \<times> 'agg)" where
  "collectReduction env agg r rnd step =
     (case VerifySignature env r of
        Some err \<Rightarrow> Inl err
      | None \<Rightarrow>
          (case CollectVote env agg r of
             Inl err \<Rightarrow> Inl err
           | Inr (result, agg') \<Rightarrow> Inr (createStepVoteMessage env result rnd step, agg')))"

text \<open>
  \<^verbatim>\<open>Phase.sendAgreement\<close>: the error it returns and the agreement it passes to
  \<^verbatim>\<open>Gossip\<close>, if it gets that far.
\<close>

definition sendAgreement ::
  "('red, 'sv, 'agg) phase_collaborators \<Rightarrow> 'sv StepVotesMsg \<Rightarrow> 64 word \<Rightarrow> 8 word \<Rightarrow>
   'sv StepVotesMsg \<Rightarrow> error option \<times> 'sv effect list" where
  "sendAgreement env firstStepVotesMsg rnd step svm =
     (let hdr = \<lparr>Round = rnd, Step = step, PubKeyBLS = BLSPubKeyBytes env,
                 BlockHash = BlockHash (Header_svm svm)\<rparr>
      in case Sign env hdr of
           Inl err \<Rightarrow> (Some err, [])
         | Inr sig \<Rightarrow>
             (let ev = \<lparr>Header_agr = hdr, Signature_agr = sig,
                        VotesPerStep = [StepVotes firstStepVotesMsg, StepVotes svm]\<rparr>
              in (Gossip_error env ev, [Gossiped ev])))"

text \<open>
  One pass of a loop of \<^verbatim>\<open>Run\<close> either goes on to the next iteration, with the
  aggregator as it is then, or returns from \<^verbatim>\<open>Run\<close>.
\<close>

datatype ('agg, 'sv) pass = Continue 'agg | Return outcome "'sv effect list"

text \<open>
  The handling of one reduction message, which the loop over the queue (lines 70 to 90)
  and the loop over the channel (lines 98 to 120) both spell out.
\<close>

definition reduce ::
  "('red, 'sv, 'agg) phase_collaborators \<Rightarrow> 'sv StepVotesMsg \<Rightarrow> 64 word \<Rightarrow> 8 word \<Rightarrow>
   'agg \<Rightarrow> 'red \<Rightarrow> ('agg, 'sv) pass" where
  "reduce env firstStepVotesMsg rnd step agg rMsg =
     (if \<not> IsMember_handler env (Sender env rMsg) rnd step then Continue agg
      else
        case collectReduction env agg rMsg rnd step of
          Inl err \<Rightarrow> Return (Failed err) []
        | Inr (None, agg') \<Rightarrow> Continue agg'
        | Inr (Some svm, agg') \<Rightarrow>
            if stepVotesAreValid env [firstStepVotesMsg, svm] \<and> AmMember env rnd step
            then
              (case sendAgreement env firstStepVotesMsg rnd step svm of
                 (Some err, effs) \<Rightarrow> Return (Failed err) effs
               | (None, effs) \<Rightarrow> Return Next_Phase effs)
            else Return Next_Phase [])"

text \<open>The loop over \<^verbatim>\<open>queue.GetEvents(r.Round, step)\<close>.\<close>

fun queue_loop ::
  "('red, 'sv, 'agg) phase_collaborators \<Rightarrow> 'sv StepVotesMsg \<Rightarrow> 64 word \<Rightarrow> 8 word \<Rightarrow>
   'agg \<Rightarrow> 'red Message list \<Rightarrow> ('agg, 'sv) pass" where
  "queue_loop env first rnd step agg [] = Continue agg"
| "queue_loop env first rnd step agg (Other_message # evs) =
     queue_loop env first rnd step agg evs"
| "queue_loop env first rnd step agg (Reduction_message rMsg # evs) =
     (case reduce env first rnd step agg rMsg of
        Continue agg' \<Rightarrow> queue_loop env first rnd step agg' evs
      | Return res effs \<Rightarrow> Return res effs)"

text \<open>
  The \<^verbatim>\<open>select\<close> loop, on the inputs received so far; when they do not end it, the loop
  waits for more, with the aggregator as it is then. The payload of an event that
  \<^verbatim>\<open>ShouldProcess\<close> lets through is asserted to be a reduction.
\<close>

fun select_loop ::
  "('red, 'sv, 'agg) phase_collaborators \<Rightarrow> 'sv StepVotesMsg \<Rightarrow> 64 word \<Rightarrow> 8 word \<Rightarrow>
   'agg \<Rightarrow> 'red input list \<Rightarrow> ('agg, 'sv) pass" where
  "select_loop env first rnd step agg [] = Continue agg"
| "select_loop env first rnd step agg (TimeoutChan # ins) =
     Return Next_Phase [Increased_Timeout rnd]"
| "select_loop env first rnd step agg (CtxDone # ins) = Return Cancelled []"
| "select_loop env first rnd step agg (EvChan ev # ins) =
     (if ShouldProcess env ev rnd step then
        (case ev of
           Other_message \<Rightarrow> Return Type_Assertion_Panic []
         | Reduction_message rMsg \<Rightarrow>
             (case reduce env first rnd step agg rMsg of
                Continue agg' \<Rightarrow> select_loop env first rnd step agg' ins
              | Return res effs \<Rightarrow> Return res effs))
      else select_loop env first rnd step agg ins)"

text \<open>
  \<^verbatim>\<open>Phase.Run\<close> for a phase whose \<^verbatim>\<open>firstStepVotesMsg\<close> has been set by \<^verbatim>\<open>Fn\<close>:
  the outcome and everything handed to the emitter.
\<close>

definition Run ::
  "('red, 'sv, 'agg) phase_collaborators \<Rightarrow> 'sv StepVotesMsg \<Rightarrow> 'red Message list \<Rightarrow>
   'red input list \<Rightarrow> 64 word \<Rightarrow> 8 word \<Rightarrow> outcome \<times> 'sv effect list" where
  "Run env firstStepVotesMsg queue evChan rnd step =
     (let hash = BlockHash (Header_svm firstStepVotesMsg);
          sent = (if AmMember env rnd step then [Sent_Reduction rnd step hash] else [])
      in case (if AmMember env rnd step then SendReduction_error env rnd step hash else None) of
           Some err \<Rightarrow> (Failed err, sent)
         | None \<Rightarrow>
             (case queue_loop env firstStepVotesMsg rnd step (NewAggregator env) queue of
                Return res effs \<Rightarrow> (res, sent @ effs)
              | Continue agg \<Rightarrow>
                  (case select_loop env firstStepVotesMsg rnd step agg evChan of
                     Return res effs \<Rightarrow> (res, sent @ effs)
                   | Continue agg' \<Rightarrow> (Blocked, sent))))"

text \<open>
  Collaborators for concrete runs: reductions are their senders' keys and every sender is
  a committee member; the aggregator counts the votes and reaches quorum at the third,
  on the hash of 32 bytes 1; step votes are the number of votes, empty when 0.
\<close>

definition phase_collaborators_3 :: "(bytes, nat, nat) phase_collaborators" where
  "phase_collaborators_3 =
     \<lparr>AmMember = (\<lambda>rnd step. True),
      IsMember_handler = (\<lambda>sender rnd step. True),
      VerifySignature = (\<lambda>r. None),
      NewAggregator = 0,
      CollectVote =
        (\<lambda>agg r. Inr (if agg + 1 = 3 then Some \<lparr>Hash_res = replicate 32 1, SV = agg + 1\<rparr>
                         else None, agg + 1)),
      Sign = (\<lambda>hdr. Inr [7]),
      Gossip_error = (\<lambda>ev. None),
      SendReduction_error = (\<lambda>rnd step hash. None),
      BLSPubKeyBytes = [9],
      IsEmpty = (\<lambda>svm. StepVotes svm = 0),
      Sender = (\<lambda>r. r),
      ShouldProcess = (\<lambda>ev rnd step. True)\<rparr>"

text \<open>A first-step result with the given block hash and number of votes.\<close>

definition first_step_votes :: "bytes \<Rightarrow> nat \<Rightarrow> nat StepVotesMsg" where
  "first_step_votes h n =
     \<lparr>Header_svm = \<lparr>Round = 10, Step = 2, PubKeyBLS = [9], BlockHash = h\<rparr>, StepVotes = n\<rparr>"

section \<open>Chain driver (package chain)\<close>

text \<open>
  Blocks. The \<^verbatim>\<open>block\<close> package is not part of the sources at hand; the header
  fields are those the chain and the test helpers set. Transactions and the certificate
  are left open. \<^verbatim>\<open>Header.Certificate\<close> is a pointer, \<open>None\<close> when nil.
\<close>

record 'cert Header =
  Version :: "8 word"
  Height :: "64 word"
  Timestamp :: "64 word"
  PrevBlockHash :: bytes
  Seed :: bytes
  TxRoot :: bytes
  Certificate :: "'cert option"
  Hash :: bytes

record ('tx, 'cert) Block =
  Header :: "'cert Header"
  Txs :: "'tx list"

text \<open>\<^verbatim>\<open>message.Candidate\<close>: a block with its certificate.\<close>

record ('tx, 'cert) Candidate =
  Block_cm :: "('tx, 'cert) Block"
  Certificate_cm :: "'cert option"

text \<open>\<^verbatim>\<open>consensus.RoundUpdate\<close>\<close>

record 'prov RoundUpdate =
  Round_ru :: "64 word"
  P_ru :: 'prov
  Seed_ru :: bytes
  Hash_ru :: bytes


text \<open>
  What the chain publishes on the event bus, in order: the \<^verbatim>\<open>Inv\<close> advertisement of a
  block hash on \<^verbatim>\<open>topics.Gossip\<close>, and the payloads published on
  \<^verbatim>\<open>topics.AcceptedBlock\<close>, \<^verbatim>\<open>topics.IntermediateBlock\<close> and
  \<^verbatim>\<open>topics.RoundUpdate\<close>.
\<close>

datatype ('tx, 'cert, 'prov) published =
    Gossip_Inv bytes
  | AcceptedBlock "('tx, 'cert) Block"
  | IntermediateBlock "('tx, 'cert) Block"
  | RoundUpdate_msg "'prov RoundUpdate"

text \<open>
  The state of the \<^verbatim>\<open>Chain\<close> struct that the modelled operations read or write. The
  field \<^verbatim>\<open>p\<close> is named \<open>p_chain\<close>. The two collaborators that the chain changes are
  part of the state: \<open>storage\<close> is the sequence of blocks held by the \<^verbatim>\<open>Loader\<close>,
  \<open>bus\<close> the sequence of publications on the event bus.
\<close>

record ('tx, 'cert, 'prov) Chain =
  p_chain :: 'prov
  prevBlock :: "('tx, 'cert) Block"
  intermediateBlock :: "('tx, 'cert) Block option"
  lastCertificate :: "'cert option"
  lastCommittee :: "bytes list"
  highestSeen :: "64 word"
  storage :: "('tx, 'cert) Block list"
  bus :: "('tx, 'cert, 'prov) published list"

text \<open>
  The collaborators the chain calls and does not change: the \<^verbatim>\<open>Verifier\<close>,
  \<^verbatim>\<open>verifiers.CheckBlockCertificate\<close>, the executor, the failure of the loader's
  \<^verbatim>\<open>Append\<close> and the \<^verbatim>\<open>GetCandidate\<close> call on the RPC bus. A nil error is
  \<open>None\<close>.
\<close>

record ('tx, 'cert, 'prov) collaborators =
  SanityCheckBlock :: "('tx, 'cert) Block \<Rightarrow> ('tx, 'cert) Block \<Rightarrow> error option"
  CheckBlockCertificate :: "'prov \<Rightarrow> ('tx, 'cert) Block \<Rightarrow> error option"
  ExecuteStateTransition :: "'tx list \<Rightarrow> 64 word \<Rightarrow> error + 'prov"
  Append_error :: "('tx, 'cert) Block \<Rightarrow> ('tx, 'cert) Block list \<Rightarrow> error option"
  GetCandidate :: "bytes \<Rightarrow> error + ('tx, 'cert) Candidate"

text \<open>
  Modelled from the spec: the implementations of the \<^verbatim>\<open>Loader\<close> interface are missing.
  The persisted state is an append-only sequence of blocks and \<^verbatim>\<open>Append\<close> is its
  single commit point: it either fails and leaves the sequence as it is, or adds the
  block at the end.
\<close>

definition Append ::
  "('tx, 'cert, 'prov) collaborators \<Rightarrow> ('tx, 'cert) Block \<Rightarrow> ('tx, 'cert) Block list \<Rightarrow>
   error + ('tx, 'cert) Block list" where
  "Append env blk st =
     (case Append_error env blk st of Some err \<Rightarrow> Inl err | None \<Rightarrow> Inr (st @ [blk]))"

text \<open>
  \<^verbatim>\<open>Chain.advertiseBlock\<close>: gossips an \<^verbatim>\<open>Inv\<close> with the block's hash and returns nil
  (encoding into a memory buffer is the only step that could fail there, and it panics).
\<close>

definition advertiseBlock ::
  "('tx, 'cert) Block \<Rightarrow> ('tx, 'cert, 'prov) Chain \<Rightarrow> error option \<times> ('tx, 'cert, 'prov) Chain" where
  "advertiseBlock b c = (None, c\<lparr>bus := bus c @ [Gossip_Inv (Hash (Header b))]\<rparr>)"

text \<open>\<^verbatim>\<open>Chain.AcceptBlock\<close>, step by step; the result is the error and the chain after
  the call.\<close>

definition AcceptBlock ::
  "('tx, 'cert, 'prov) collaborators \<Rightarrow> ('tx, 'cert) Block \<Rightarrow> ('tx, 'cert, 'prov) Chain \<Rightarrow>
   error option \<times> ('tx, 'cert, 'prov) Chain" where
  "AcceptBlock env blk c =
     (case SanityCheckBlock env (prevBlock c) blk of
        Some err \<Rightarrow> (Some err, c)
      | None \<Rightarrow>
     (case CheckBlockCertificate env (p_chain c) blk of
        Some err \<Rightarrow> (Some err, c)
      | None \<Rightarrow>
     (case ExecuteStateTransition env (Txs blk) (Height (Header blk)) of
        Inl err \<Rightarrow> (Some err, c)
      | Inr provisioners \<Rightarrow>
     (let c1 = c\<lparr>p_chain := provisioners\<rparr> in
      case Append env blk (storage c1) of
        Inl err \<Rightarrow> (Some err, c1)
      | Inr st \<Rightarrow>
     (let c2 = c1\<lparr>storage := st\<rparr> in
      case advertiseBlock blk c2 of
        (Some err, c3) \<Rightarrow> (Some err, c3)
      | (None, c3) \<Rightarrow>
     (let c4 = c3\<lparr>prevBlock := blk\<rparr>;
          c5 = c4\<lparr>bus := bus c4 @ [AcceptedBlock blk]\<rparr>
      in (None, c5)))))))"





text \<open>
  \<^verbatim>\<open>Chain.GetSyncProgress\<close> computes in floating point. The conversions to
  \<^verbatim>\<open>float64\<close>, the division and the multiplication each round their exact result to
  a \<^verbatim>\<open>float64\<close>, and the final conversion rounds to a \<^verbatim>\<open>float32\<close>; the two rounding
  functions are parameters on the reals. The divisor is not zero on the path that divides.
\<close>

definition GetSyncProgress ::
  "(real \<Rightarrow> real) \<Rightarrow> (real \<Rightarrow> real) \<Rightarrow> ('tx, 'cert, 'prov) Chain \<Rightarrow> real" where
  "GetSyncProgress to_float64 to_float32 c =
     (if highestSeen c = 0 then 0
      else
        (let prevBlockHeight = Height (Header (prevBlock c));
             quotient = to_float64 (to_float64 (real (unat prevBlockHeight))
                                      / to_float64 (real (unat (highestSeen c))));
             progressPercentage = to_float64 (quotient * 100);
             progressPercentage' = (if progressPercentage > 100 then 100 else progressPercentage)
         in to_float32 progressPercentage'))"

text \<open>
  What the proofs ask of a rounding function: it is monotone and leaves 0, 1 and 100, which
  both formats represent, as they are. IEEE round-to-nearest is such a function.
\<close>

definition rounding :: "(real \<Rightarrow> real) \<Rightarrow> bool" where
  "rounding f = (mono f \<and> f 0 = 0 \<and> f 1 = 1 \<and> f 100 = 100)"

text \<open>A block of a given height with nothing else set, for concrete runs.\<close>

definition block_at :: "64 word \<Rightarrow> (unit, unit) Block" where
  "block_at h =
     \<lparr>Header = \<lparr>Version = 0, Height = h, Timestamp = 0, PrevBlockHash = [], Seed = [],
                 TxRoot = [], Certificate = None, Hash = []\<rparr>,
      Txs = []\<rparr>"

text \<open>A chain whose tip is at height \<open>h\<close>, with the block at \<open>h + 1\<close> as intermediate block;
  the provisioners are a number here.\<close>

definition chain_at :: "64 word \<Rightarrow> (unit, unit, nat) Chain" where
  "chain_at h =
     \<lparr>p_chain = 0, prevBlock = block_at h, intermediateBlock = Some (block_at (h + 1)),
      lastCertificate = None, lastCommittee = [], highestSeen = 0, storage = [block_at h],
      bus = []\<rparr>"

text \<open>
  Collaborators for concrete runs: the sanity check asks for the height after the previous
  block's, the certificate check passes, the executor returns the height as the new
  provisioners, the loader appends, and \<^verbatim>\<open>GetCandidate\<close> returns the block of height
  \<open>h\<close> with a certificate.
\<close>

definition collaborators_at :: "64 word \<Rightarrow> (unit, unit, nat) collaborators" where
  "collaborators_at h =
     \<lparr>SanityCheckBlock =
        (\<lambda>prev blk. if Height (Header blk) = Height (Header prev) + 1 then None
                     else Some ''wrong height''),
      CheckBlockCertificate = (\<lambda>provisioners blk. None),
      ExecuteStateTransition = (\<lambda>txs height. Inr (unat height)),
      Append_error = (\<lambda>blk st. None),
      GetCandidate = (\<lambda>hash. Inr \<lparr>Block_cm = block_at h, Certificate_cm = Some ()\<rparr>)\<rparr>"

section \<open>Block certificate (package block, certificate.go)\<close>

record Certificate =
  BRBatchedSig :: bytes
  BRStep :: "32 word"
  BRPubKeys :: "bytes list"
  SRBatchedSig :: bytes
  SRStep :: "32 word"
  SRPubKeys :: "bytes list"
  Hash_cert :: bytes

subsection \<open>The encoding primitives\<close>

text \<open>
  Modelled from the spec: the package \<^verbatim>\<open>encoding\<close> is missing. Its primitives are
  little-endian fixed-width integers, \<^verbatim>\<open>VarInt\<close> as the classical length prefix (one
  byte below \<open>0xfd\<close>; \<open>0xfd\<close>, \<open>0xfe\<close>, \<open>0xff\<close> followed by 2, 4, 8 bytes),
  \<^verbatim>\<open>VarBytes\<close> as the \<^verbatim>\<open>VarInt\<close> of the length followed by the bytes, \<^verbatim>\<open>256\<close> as 32
  raw bytes and a BLS signature as 48 raw bytes (the comments of the \<^verbatim>\<open>Certificate\<close>
  struct speak of 33 bytes; only the constant below carries the size). A writer appends to the buffer \<open>w\<close> and
  fails on a value of the wrong size; a reader takes from the front of \<open>r\<close> and fails
  when the input ends early.
\<close>

definition BLS_size :: nat where
  "BLS_size = 48"

fun le_bytes :: "nat \<Rightarrow> nat \<Rightarrow> bytes" where
  "le_bytes 0 n = []"
| "le_bytes (Suc k) n = of_nat (n mod 256) # le_bytes k (n div 256)"

fun le_nat :: "bytes \<Rightarrow> nat" where
  "le_nat [] = 0"
| "le_nat (b # bs) = unat b + 256 * le_nat bs"

definition read_exact :: "nat \<Rightarrow> bytes \<Rightarrow> error + (bytes \<times> bytes)" where
  "read_exact n r = (if length r < n then Inl ''unexpected EOF'' else Inr (take n r, drop n r))"

definition WriteBLS :: "bytes \<Rightarrow> bytes \<Rightarrow> error + bytes" where
  "WriteBLS w b = (if length b \<noteq> BLS_size then Inl ''invalid BLS signature size'' else Inr (w @ b))"

definition ReadBLS :: "bytes \<Rightarrow> error + (bytes \<times> bytes)" where
  "ReadBLS r = read_exact BLS_size r"

definition Write256 :: "bytes \<Rightarrow> bytes \<Rightarrow> error + bytes" where
  "Write256 w b = (if length b \<noteq> 32 then Inl ''invalid 256 bit value size'' else Inr (w @ b))"

definition Read256 :: "bytes \<Rightarrow> error + (bytes \<times> bytes)" where
  "Read256 r = read_exact 32 r"

definition WriteUint32 :: "bytes \<Rightarrow> 32 word \<Rightarrow> error + bytes" where
  "WriteUint32 w v = Inr (w @ le_bytes 4 (unat v))"

definition ReadUint32 :: "bytes \<Rightarrow> error + (32 word \<times> bytes)" where
  "ReadUint32 r =
     (case read_exact 4 r of Inl err \<Rightarrow> Inl err | Inr (b, r') \<Rightarrow> Inr (of_nat (le_nat b), r'))"

definition VarInt :: "64 word \<Rightarrow> bytes" where
  "VarInt v =
     (if v < 0xfd then [of_nat (unat v)]
      else if v \<le> 0xffff then 0xfd # le_bytes 2 (unat v)
      else if v \<le> 0xffffffff then 0xfe # le_bytes 4 (unat v)
      else 0xff # le_bytes 8 (unat v))"

definition WriteVarInt :: "bytes \<Rightarrow> 64 word \<Rightarrow> error + bytes" where
  "WriteVarInt w v = Inr (w @ VarInt v)"

definition ReadVarInt :: "bytes \<Rightarrow> error + (64 word \<times> bytes)" where
  "ReadVarInt r =
     (case r of
        [] \<Rightarrow> Inl ''unexpected EOF''
      | d # r' \<Rightarrow>
          (let n = (if d = 0xff then 8 else if d = 0xfe then 4 else if d = 0xfd then 2 else 0)
           in if n = 0 then Inr (of_nat (unat d), r')
              else (case read_exact n r' of
                      Inl err \<Rightarrow> Inl err
                    | Inr (b, r'') \<Rightarrow> Inr (of_nat (le_nat b), r''))))"

definition VarBytes :: "bytes \<Rightarrow> bytes" where
  "VarBytes b = VarInt (of_nat (length b)) @ b"

definition WriteVarBytes :: "bytes \<Rightarrow> bytes \<Rightarrow> error + bytes" where
  "WriteVarBytes w b = Inr (w @ VarBytes b)"

definition ReadVarBytes :: "bytes \<Rightarrow> error + (bytes \<times> bytes)" where
  "ReadVarBytes r =
     (case ReadVarInt r of
        Inl err \<Rightarrow> Inl err
      | Inr (c, r') \<Rightarrow> read_exact (unat c) r')"

subsection \<open>Encoding and decoding a certificate\<close>

text \<open>The loops \<^verbatim>\<open>for _, brpk := range c.BRPubKeys\<close> of \<^verbatim>\<open>EncodeHashable\<close>.\<close>

fun write_keys :: "bytes \<Rightarrow> bytes list \<Rightarrow> error + bytes" where
  "write_keys w [] = Inr w"
| "write_keys w (pk # pks) =
     (case WriteVarBytes w pk of Inl err \<Rightarrow> Inl err | Inr w' \<Rightarrow> write_keys w' pks)"

text \<open>\<^verbatim>\<open>Certificate.EncodeHashable\<close>\<close>

definition EncodeHashable :: "Certificate \<Rightarrow> bytes \<Rightarrow> error + bytes" where
  "EncodeHashable c w =
     (case WriteBLS w (BRBatchedSig c) of Inl err \<Rightarrow> Inl err | Inr w1 \<Rightarrow>
      case WriteUint32 w1 (BRStep c) of Inl err \<Rightarrow> Inl err | Inr w2 \<Rightarrow>
      case WriteVarInt w2 (of_nat (length (BRPubKeys c))) of Inl err \<Rightarrow> Inl err | Inr w3 \<Rightarrow>
      case write_keys w3 (BRPubKeys c) of Inl err \<Rightarrow> Inl err | Inr w4 \<Rightarrow>
      case WriteBLS w4 (SRBatchedSig c) of Inl err \<Rightarrow> Inl err | Inr w5 \<Rightarrow>
      case WriteUint32 w5 (SRStep c) of Inl err \<Rightarrow> Inl err | Inr w6 \<Rightarrow>
      case WriteVarInt w6 (of_nat (length (SRPubKeys c))) of Inl err \<Rightarrow> Inl err | Inr w7 \<Rightarrow>
      write_keys w7 (SRPubKeys c))"

text \<open>\<^verbatim>\<open>Certificate.Encode\<close>\<close>

definition Encode :: "Certificate \<Rightarrow> bytes \<Rightarrow> error + bytes" where
  "Encode c w =
     (case EncodeHashable c w of Inl err \<Rightarrow> Inl err | Inr w' \<Rightarrow> Write256 w' (Hash_cert c))"

text \<open>The loops \<^verbatim>\<open>for i := uint64(0); i < lBRPubKeys; i++\<close> of \<^verbatim>\<open>Decode\<close>, on the
  number of keys still to read.\<close>

fun read_keys :: "nat \<Rightarrow> bytes \<Rightarrow> error + (bytes list \<times> bytes)" where
  "read_keys 0 r = Inr ([], r)"
| "read_keys (Suc n) r =
     (case ReadVarBytes r of
        Inl err \<Rightarrow> Inl err
      | Inr (pk, r') \<Rightarrow>
          (case read_keys n r' of Inl err \<Rightarrow> Inl err | Inr (pks, r'') \<Rightarrow> Inr (pk # pks, r'')))"

text \<open>\<^verbatim>\<open>Certificate.Decode\<close>: the certificate read and the input left over.\<close>

definition Decode :: "bytes \<Rightarrow> error + (Certificate \<times> bytes)" where
  "Decode r =
     (case ReadBLS r of Inl err \<Rightarrow> Inl err | Inr (brSig, r1) \<Rightarrow>
      case ReadUint32 r1 of Inl err \<Rightarrow> Inl err | Inr (brStep, r2) \<Rightarrow>
      case ReadVarInt r2 of Inl err \<Rightarrow> Inl err | Inr (lBRPubKeys, r3) \<Rightarrow>
      case read_keys (unat lBRPubKeys) r3 of Inl err \<Rightarrow> Inl err | Inr (brKeys, r4) \<Rightarrow>
      case ReadBLS r4 of Inl err \<Rightarrow> Inl err | Inr (srSig, r5) \<Rightarrow>
      case ReadUint32 r5 of Inl err \<Rightarrow> Inl err | Inr (srStep, r6) \<Rightarrow>
      case ReadVarInt r6 of Inl err \<Rightarrow> Inl err | Inr (lSRPubKeys, r7) \<Rightarrow>
      case read_keys (unat lSRPubKeys) r7 of Inl err \<Rightarrow> Inl err | Inr (srKeys, r8) \<Rightarrow>
      case Read256 r8 of Inl err \<Rightarrow> Inl err | Inr (h, r9) \<Rightarrow>
        Inr (\<lparr>BRBatchedSig = brSig, BRStep = brStep, BRPubKeys = brKeys,
              SRBatchedSig = srSig, SRStep = srStep, SRPubKeys = srKeys, Hash_cert = h\<rparr>, r9))"

text \<open>
  A valid certificate: both batched signatures are BLS signatures, the hash has 32 bytes.
  The numbers of keys and the lengths of the keys fit a \<^verbatim>\<open>uint64\<close>, as every Go slice
  does.
\<close>

definition valid_Certificate :: "Certificate \<Rightarrow> bool" where
  "valid_Certificate c =
     (length (BRBatchedSig c) = BLS_size \<and> length (SRBatchedSig c) = BLS_size \<and>
      length (Hash_cert c) = 32 \<and>
      length (BRPubKeys c) < 2 ^ 64 \<and> length (SRPubKeys c) < 2 ^ 64 \<and>
      (\<forall>pk \<in> set (BRPubKeys c) \<union> set (SRPubKeys c). length pk < 2 ^ 64))"

text \<open>A certificate for concrete runs.\<close>

definition example_Certificate :: Certificate where
  "example_Certificate =
     \<lparr>BRBatchedSig = replicate 48 1, BRStep = 3, BRPubKeys = [[1, 2, 3], []],
      SRBatchedSig = replicate 48 2, SRStep = 4, SRPubKeys = [replicate 300 7],
      Hash_cert = replicate 32 9\<rparr>"

section \<open>Signature-set collector (pkg/core/consensus/notary/sigset.go)\<close>

text \<open>
  A \<^verbatim>\<open>SigSetEvent\<close>: the round and the step of the embedded \<^verbatim>\<open>NotaryEvent\<close>, and the
  rest of the event (vote set, hashes, signature), left open.
\<close>

record 'a SigSetEvent =
  Round_ev :: "64 word"
  Step_ev :: "8 word"
  rest_ev :: 'a

text \<open>
  The collector: the current round and the events of the current round by step (both of
  the embedded \<^verbatim>\<open>committee.Collector\<close>; the map is keyed by \<^verbatim>\<open>string(step)\<close>, one key
  per step), the events of future rounds by round, and what has been sent on the round
  channel and on the repropagation channel. A key that is not in a Go map reads as the nil
  slice, the empty list here.
\<close>

record 'a sigSetCollector =
  CurrentRound :: "64 word"
  StepEventCollector :: "8 word \<Rightarrow> 'a SigSetEvent list"
  futureRounds :: "64 word \<Rightarrow> 'a SigSetEvent list"
  RoundChan_sent :: "64 word list"
  RepropagationChannel :: "'a SigSetEvent list"

text \<open>
  Modelled from the spec: the embedded \<^verbatim>\<open>committee.Collector\<close> and the committee are
  missing. \<^verbatim>\<open>ShouldBeSkipped\<close> (the validation of an event) and the committee's
  \<^verbatim>\<open>Quorum\<close> are parameters, and so are \<^verbatim>\<open>Store\<close> and \<^verbatim>\<open>Clear\<close>, which act on the
  events of the current round only; \<^verbatim>\<open>UpdateRound\<close> makes its argument the current round
  (the round transition of the specification).
\<close>

record 'a collector_parameters =
  ShouldBeSkipped :: "'a SigSetEvent \<Rightarrow> bool"
  Quorum_committee :: int
  Store :: "'a SigSetEvent \<Rightarrow> 8 word \<Rightarrow> (8 word \<Rightarrow> 'a SigSetEvent list) \<Rightarrow>
            (8 word \<Rightarrow> 'a SigSetEvent list)"
  Clear :: "(8 word \<Rightarrow> 'a SigSetEvent list) \<Rightarrow> (8 word \<Rightarrow> 'a SigSetEvent list)"

definition UpdateRound :: "64 word \<Rightarrow> 'a sigSetCollector \<Rightarrow> 'a sigSetCollector" where
  "UpdateRound r s = s\<lparr>CurrentRound := r\<rparr>"

text \<open>\<^verbatim>\<open>newSigSetCollector\<close>: empty maps, nothing sent.\<close>

definition newSigSetCollector :: "64 word \<Rightarrow> 'a sigSetCollector" where
  "newSigSetCollector currentRound =
     \<lparr>CurrentRound = currentRound, StepEventCollector = (\<lambda>step. []),
      futureRounds = (\<lambda>r. []), RoundChan_sent = [], RepropagationChannel = []\<rparr>"

text \<open>\<^verbatim>\<open>sigSetCollector.ShouldBeStored\<close>\<close>

definition ShouldBeStored ::
  "'a collector_parameters \<Rightarrow> 'a SigSetEvent \<Rightarrow> 'a sigSetCollector \<Rightarrow> bool" where
  "ShouldBeStored env m s =
     (let step = Step_ev m;
          sigSetList = StepEventCollector s step
      in int (length sigSetList) + 1 < Quorum_committee env \<or> Round_ev m > CurrentRound s)"

text \<open>
  \<^verbatim>\<open>sigSetCollector.Process\<close> and \<^verbatim>\<open>sigSetCollector.nextRound\<close> call each other, and
  nothing in them bounds the recursion. The first argument bounds the depth of the calls:
  the result is \<open>None\<close> when the bound is used up. The result is the collector after
  the call and the events \<^verbatim>\<open>Process\<close> has been called on, in order. The loop of
  \<^verbatim>\<open>nextRound\<close> ranges over the slice as it is when the loop starts.
\<close>

fun Process ::
    "nat \<Rightarrow> 'a collector_parameters \<Rightarrow> 'a SigSetEvent \<Rightarrow> 'a sigSetCollector \<Rightarrow>
     ('a sigSetCollector \<times> 'a SigSetEvent list) option"
  and range_currentEvents ::
    "nat \<Rightarrow> 'a collector_parameters \<Rightarrow> 'a SigSetEvent list \<Rightarrow> 'a sigSetCollector \<Rightarrow>
     ('a sigSetCollector \<times> 'a SigSetEvent list) option"
  and nextRound ::
    "nat \<Rightarrow> 'a collector_parameters \<Rightarrow> 'a sigSetCollector \<Rightarrow>
     ('a sigSetCollector \<times> 'a SigSetEvent list) option"
where
  "Process 0 env ev s = None"
| "Process (Suc n) env ev s =
     (let isIrrelevant = (CurrentRound s \<noteq> 0 \<and> CurrentRound s > Round_ev ev) in
      if ShouldBeSkipped env ev \<or> isIrrelevant then Some (s, [ev])
      else if ShouldBeStored env ev s then
        (if Round_ev ev > CurrentRound s then
           (let events = futureRounds s (Round_ev ev);
                events' = events @ [ev]
            in Some (s\<lparr>futureRounds := (futureRounds s)(Round_ev ev := events')\<rparr>, [ev]))
         else
           Some (s\<lparr>RepropagationChannel := RepropagationChannel s @ [ev],
                    StepEventCollector := Store env ev (Step_ev ev) (StepEventCollector s)\<rparr>,
                 [ev]))
      else
        (case nextRound n env s of
           None \<Rightarrow> None
         | Some (s', evs) \<Rightarrow> Some (s', ev # evs)))"
| "range_currentEvents n env [] s = Some (s, [])"
| "range_currentEvents n env (event # events) s =
     (case Process n env event s of
        None \<Rightarrow> None
      | Some (s', evs) \<Rightarrow>
          (case range_currentEvents n env events s' of
             None \<Rightarrow> None
           | Some (s'', evs') \<Rightarrow> Some (s'', evs @ evs')))"
| "nextRound n env s =
     (let s1 = UpdateRound (CurrentRound s + 1) s;
          s2 = s1\<lparr>RoundChan_sent := RoundChan_sent s1 @ [CurrentRound s1]\<rparr>;
          s3 = s2\<lparr>StepEventCollector := Clear env (StepEventCollector s2)\<rparr>;
          currentEvents = futureRounds s3 (CurrentRound s3)
      in range_currentEvents n env currentEvents s3)"

declare nextRound.simps [simp del]

text \<open>
  Every event stored for a future round is stored under its own round. \<^verbatim>\<open>Process\<close> is
  the only writer of the map and keeps it so, from the empty map on.
\<close>

definition stored_by_round :: "'a sigSetCollector \<Rightarrow> bool" where
  "stored_by_round s = (\<forall>r. \<forall>e \<in> set (futureRounds s r). Round_ev e = r)"

text \<open>Collaborators for concrete runs: nothing is skipped, the quorum is \<open>q\<close>,
  \<^verbatim>\<open>Store\<close> appends an event that is not stored yet, \<^verbatim>\<open>Clear\<close> empties the map.\<close>

definition collector_parameters_q :: "int \<Rightarrow> unit collector_parameters" where
  "collector_parameters_q q =
     \<lparr>ShouldBeSkipped = (\<lambda>ev. False), Quorum_committee = q,
      Store = (\<lambda>ev step sec. if ev \<in> set (sec step) then sec else sec(step := sec step @ [ev])),
      Clear = (\<lambda>sec step. [])\<rparr>"

definition event_at :: "64 word \<Rightarrow> 8 word \<Rightarrow> unit SigSetEvent" where
  "event_at r st = \<lparr>Round_ev = r, Step_ev = st, rest_ev = ()\<rparr>"

section \<open>Properties of the reduction committee\<close>

lemma size_rc_min: "size_rc p = min 64 (length (Members p))"
  by (simp add: size_rc_def committeeSize_def Let_def min_def)

lemma floor_three_quarters: "\<lfloor>real n * 0.75\<rfloor> = int ((3 * n) div 4)"
proof -
  have "real n * 0.75 = real (3 * n) / real 4" by simp
  then show ?thesis by (simp only: floor_divide_of_nat_eq)
qed

lemma ceiling_three_quarters: "\<lceil>real n * 0.75\<rceil> = int ((3 * n + 3) div 4)"
proof -
  have "real n * 0.75 = of_int (int (3 * n)) / of_int 4" by simp
  then have "\<lceil>real n * 0.75\<rceil> = - (- int (3 * n) div 4)"
    by (simp only: ceiling_divide_eq_div)
  also have "\<dots> = int ((3 * n + 3) div 4)" by (simp add: zdiv_int)
  finally show ?thesis .
qed

text \<open>
  C1, as stated, fails: a provisioner set with one member has committee size 1, the code
  returns the quorum 0, and the ceiling of 0.75 is 1.
\<close>

theorem Quorum_not_ceiling_single_member:
  "Quorum \<lparr>Members = [()]\<rparr> = 0 \<and> \<lceil>0.75 * real (size_rc \<lparr>Members = [()]\<rparr>)\<rceil> = 1"
  by (simp add: Quorum_def size_rc_def committeeSize_def)

text \<open>
  C1, amended: the reduction quorum is the floor of 0.75 times the committee size
  \<open>n = min 64 (number of members)\<close>, that is \<open>3 n div 4\<close>. It never exceeds the
  ceiling, and it equals the ceiling exactly when \<open>n\<close> is a multiple of 4.
\<close>

theorem Quorum_is_floor:
  fixes p :: "'m Provisioners"
  defines "n \<equiv> min 64 (length (Members p))"
  shows "Quorum p = int ((3 * n) div 4)
       \<and> Quorum p \<le> \<lceil>0.75 * real n\<rceil>
       \<and> (Quorum p = \<lceil>0.75 * real n\<rceil>) = (4 dvd n)"
proof -
  have q: "Quorum p = int ((3 * n) div 4)"
    by (simp only: Quorum_def size_rc_min n_def floor_three_quarters)
  have c: "\<lceil>0.75 * real n\<rceil> = int ((3 * n + 3) div 4)"
    using ceiling_three_quarters [of n] by (simp add: mult.commute)
  have le: "(3 * n) div 4 \<le> (3 * n + 3) div 4" by simp
  have eq: "((3 * n) div 4 = (3 * n + 3) div 4) = (4 dvd n)" by presburger
  show ?thesis using q c le eq by simp
qed

lemma IsMember_eq:
  "IsMember P V r p k rd step =
     (if unat (step - 1) < length (committees r)
      then Inr (V (committees r ! unat (step - 1)) k,
                if unat step > length (committees r)
                then r\<lparr>Cache := P (Cache r) p rd (of_nat (length (committees r))) (step - of_nat (length (committees r)) + 8) (size_rc p)\<rparr>
                else r)
      else Inl index_out_of_range)"
  by (simp add: IsMember_def Let_def)

lemma idx_bounds:
  "(unat (step - 1 :: 8 word) < n) = ((1 \<le> unat step \<and> unat step \<le> n) \<or> (step = 0 \<and> 256 \<le> n))"
proof (cases "step = 0")
  case True
  then show ?thesis by (simp add: unsigned_minus_1_eq_mask mask_eq_exp_minus_1) arith
next
  case False
  then have "unat (step - 1) = unat step - 1" by (simp add: unat_minus_one)
  moreover have "1 \<le> unat step" using False by (simp add: unat_gt_0 Suc_le_eq)
  ultimately show ?thesis using False by auto
qed

text \<open>
  C10, as stated, fails in its first clause: \<^verbatim>\<open>step-1\<close> is \<^verbatim>\<open>uint8\<close> arithmetic, so at
  \<open>step = 0\<close> the index is 255, which is in bounds for a slice of 256 committees
  although \<open>1 \<le> step\<close> does not hold.
\<close>

theorem IsMember_step_zero_in_bounds:
  "IsMember (\<lambda>c p r s a n. c) (\<lambda>vc k. True)
     \<lparr>Cache = (), committees = replicate 256 ()\<rparr> \<lparr>Members = []\<rparr> [] 0 0
   = Inr (True, \<lparr>Cache = (), committees = replicate 256 ()\<rparr>)"
  by (simp add: IsMember_def unsigned_minus_1_eq_mask mask_eq_exp_minus_1)

text \<open>
  C10, amended: the index access \<^verbatim>\<open>r.committees[step-1]\<close> is in bounds exactly when
  \<open>1 \<le> step \<le> len(r.committees)\<close>, or \<open>step = 0\<close> and the slice holds at least 256
  committees (the index wraps to 255). The pregeneration branch changes the cache only,
  so whenever \<open>step\<close> exceeds \<open>len(r.committees)\<close> the access is out of bounds, and
  every call on a freshly constructed \<^verbatim>\<open>reductionCommittee\<close> is out of bounds.
\<close>

theorem IsMember_in_bounds_iff:
  "((\<exists>b r'. IsMember P V r p k rd step = Inr (b, r'))
      = ((1 \<le> unat step \<and> unat step \<le> length (committees r))
          \<or> (step = 0 \<and> 256 \<le> length (committees r))))
   \<and> (\<forall>b r'. IsMember P V r p k rd step = Inr (b, r') \<longrightarrow> committees r' = committees r)
   \<and> (length (committees r) < unat step \<longrightarrow>
        IsMember P V r p k rd step = Inl index_out_of_range)
   \<and> IsMember P V (newReductionCommittee c) p k rd step = Inl index_out_of_range"
proof (intro conjI allI impI)
  show "(\<exists>b r'. IsMember P V r p k rd step = Inr (b, r'))
      = ((1 \<le> unat step \<and> unat step \<le> length (committees r))
          \<or> (step = 0 \<and> 256 \<le> length (committees r)))"
    using idx_bounds [of step "length (committees r)"] by (auto simp: IsMember_eq)
next
  fix b r' assume "IsMember P V r p k rd step = Inr (b, r')"
  then show "committees r' = committees r"
    by (auto simp: IsMember_eq split: if_splits)
next
  assume "length (committees r) < unat step"
  then have "\<not> unat (step - 1) < length (committees r)"
    by (auto simp: idx_bounds)
  then show "IsMember P V r p k rd step = Inl index_out_of_range"
    by (simp add: IsMember_eq)
next
  show "IsMember P V (newReductionCommittee c) p k rd step = Inl index_out_of_range"
    by (simp add: IsMember_eq newReductionCommittee_def)
qed

theorem IsMember_in_bounds_iff_witness:
  "length (committees \<lparr>Cache = (), committees = [()]\<rparr>) < unat (2 :: 8 word)
   \<and> IsMember (\<lambda>c p r s a n. c) (\<lambda>vc k. True) \<lparr>Cache = (), committees = [()]\<rparr>
        \<lparr>Members = []\<rparr> [] 7 2 = Inl index_out_of_range
   \<and> IsMember (\<lambda>c p r s a n. c) (\<lambda>vc k. True) \<lparr>Cache = (), committees = [(), ()]\<rparr>
        \<lparr>Members = []\<rparr> [] 7 2 = Inr (True, \<lparr>Cache = (), committees = [(), ()]\<rparr>)
   \<and> committees \<lparr>Cache = (), committees = [(), ()]\<rparr> = [(), ()]"
proof -
  have h: "length (committees \<lparr>Cache = (), committees = [()]\<rparr>) < unat (2 :: 8 word)"
    by simp
  have out: "IsMember (\<lambda>c p r s a n. c) (\<lambda>vc k. True) \<lparr>Cache = (), committees = [()]\<rparr>
        \<lparr>Members = []\<rparr> [] 7 2 = Inl index_out_of_range"
    using IsMember_in_bounds_iff
      [of "\<lambda>c p r s a n. c" "\<lambda>vc k. True" "\<lparr>Cache = (), committees = [()]\<rparr>"
          "\<lparr>Members = []\<rparr>" "[]" 7 2] h
    by blast
  have inb: "IsMember (\<lambda>c p r s a n. c) (\<lambda>vc k. True) \<lparr>Cache = (), committees = [(), ()]\<rparr>
        \<lparr>Members = []\<rparr> [] 7 2 = Inr (True, \<lparr>Cache = (), committees = [(), ()]\<rparr>)"
    by (simp add: IsMember_def)
  show ?thesis using h out inb by simp
qed


section \<open>Properties of the reputation moderator\<close>

lemma hextable_inj: "i < 16 \<Longrightarrow> j < 16 \<Longrightarrow> hextable ! i = hextable ! j \<Longrightarrow> i = j"
proof -
  have d: "distinct hextable" and l: "length hextable = 16"
    by (simp_all add: hextable_def)
  assume "i < 16" "j < 16" "hextable ! i = hextable ! j"
  then show "i = j" using d l by (simp add: nth_eq_iff_index_eq)
qed

lemma hi_nibble: "unat (drop_bit 4 (v :: 8 word)) = unat v div 16"
  by (simp add: unat_drop_bit_eq drop_bit_eq_div del: drop_bit_eq_div [symmetric]) (simp add: unat_div)

lemma lo_nibble: "unat ((v :: 8 word) AND 0x0f) = unat v mod 16"
proof -
  have "(v AND 0x0f) = take_bit 4 v" 
    by (simp add: take_bit_eq_mask mask_eq_exp_minus_1)
  then show ?thesis by (simp add: unsigned_take_bit_eq take_bit_eq_mod unat_mod)
qed

lemma byte_digits_inj:
  fixes v w :: "8 word"
  assumes "hextable ! unat (drop_bit 4 v) = hextable ! unat (drop_bit 4 w)"
      and "hextable ! unat (v AND 0x0f) = hextable ! unat (w AND 0x0f)"
  shows "v = w"
proof -
  have bv: "unat v < 256" and bw: "unat w < 256"
    using unsigned_less [of v, where 'a = nat] unsigned_less [of w, where 'a = nat] by simp_all
  have "unat v div 16 = unat w div 16"
    using assms(1) bv bw by (intro hextable_inj) (simp_all add: hi_nibble)
  moreover have "unat v mod 16 = unat w mod 16"
    using assms(2) by (intro hextable_inj) (simp_all add: lo_nibble)
  ultimately have "unat v = unat w" by (metis div_mult_mod_eq)
  then show ?thesis by (simp add: word_unat_eq_iff)
qed

lemma EncodeToString_Nil: "EncodeToString [] = []"
  by (simp add: EncodeToString_def)

lemma EncodeToString_Cons:
  "EncodeToString (v # vs) =
     hextable ! unat (drop_bit 4 v) # hextable ! unat (v AND 0x0f) # EncodeToString vs"
  by (simp add: EncodeToString_def)

lemma EncodeToString_inj: "EncodeToString a = EncodeToString b \<Longrightarrow> a = b"
proof (induction a arbitrary: b)
  case Nil
  then show ?case by (cases b) (simp_all add: EncodeToString_Nil EncodeToString_Cons)
next
  case (Cons v vs)
  then show ?case
    by (cases b) (auto simp: EncodeToString_Nil EncodeToString_Cons dest: byte_digits_inj)
qed

lemma listen_append:
  "listen (es @ fs) m =
     (let (m', out) = listen es m; (m'', outs) = listen fs m' in (m'', out @ outs))"
  by (induction es arbitrary: m) (simp_all add: split_beta Let_def)

lemma addStrike_same:
  "strikes_at (fst (addStrike pk m)) (EncodeToString pk) = strikes_at m (EncodeToString pk) + 1"
  by (simp add: addStrike_def Let_def strikes_at_def)

lemma addStrike_out:
  "snd (addStrike pk m) =
     (if maxStrikes \<le> strikes_at m (EncodeToString pk) + 1
      then [(RemoveProvisionerTopic, pk)] else [])"
  by (simp add: addStrike_def Let_def strikes_at_def)

lemma addStrike_other:
  "x \<noteq> pk \<Longrightarrow>
   strikes_at (fst (addStrike x m)) (EncodeToString pk) = strikes_at m (EncodeToString pk)"
  by (auto simp: addStrike_def Let_def strikes_at_def dest: EncodeToString_inj)

lemma addStrike_out_other:
  "x \<noteq> pk \<Longrightarrow> (RemoveProvisionerTopic, pk) \<notin> set (snd (addStrike x m))"
  by (simp add: addStrike_out)

lemma small_counts: "c < 2 \<Longrightarrow> \<not> (3 :: 8 word) \<le> of_nat c + 1"
proof -
  assume "c < 2"
  then have "c = 0 \<or> c = 1" by arith
  then show ?thesis by (auto simp: word_le_nat_alt)
qed

lemma strikes_invariant:
  assumes "strikes_at m (EncodeToString pk) = 0"
  shows "strikes_at (fst (listen (map AbsenteeChan xs) m)) (EncodeToString pk) = of_nat (count_list xs pk)
       \<and> ((RemoveProvisionerTopic, pk) \<in> set (snd (listen (map AbsenteeChan xs) m))) = (3 \<le> count_list xs pk)"
proof (induction xs rule: rev_induct)
  case Nil
  then show ?case using assms by simp
next
  case (snoc x xs)
  define m' where "m' = fst (listen (map AbsenteeChan xs) m)"
  define out where "out = snd (listen (map AbsenteeChan xs) m)"
  have l: "listen (map AbsenteeChan xs @ [AbsenteeChan x]) m = (fst (addStrike x m'), out @ snd (addStrike x m'))"
    by (simp add: listen_append split_beta Let_def m'_def out_def)
  show ?case
  proof (cases "x = pk")
    case True
    have s: "strikes_at m' (EncodeToString pk) = of_nat (count_list xs pk)"
      using snoc.IH by (simp add: m'_def)
    have o: "((RemoveProvisionerTopic, pk) \<in> set out) = (3 \<le> count_list xs pk)"
      using snoc.IH by (simp add: out_def)
    have "count_list xs pk < 2 \<or> count_list xs pk = 2 \<or> 3 \<le> count_list xs pk" by arith
    then have "((RemoveProvisionerTopic, pk) \<in> set (out @ snd (addStrike pk m'))) = (3 \<le> count_list xs pk + 1)"
    proof (elim disjE)
      assume "count_list xs pk < 2"
      then show ?thesis using o s small_counts [of "count_list xs pk"]
        by (simp add: addStrike_out maxStrikes_def)
    next
      assume "count_list xs pk = 2"
      then show ?thesis using o s by (simp add: addStrike_out maxStrikes_def)
    next
      assume "3 \<le> count_list xs pk"
      then show ?thesis using o by simp
    qed
    moreover have "listen (map AbsenteeChan xs @ [AbsenteeChan pk]) m = (fst (addStrike pk m'), out @ snd (addStrike pk m'))"
      using l True by simp
    ultimately show ?thesis using True s by (simp add: addStrike_same)
  next
    case False
    then show ?thesis using snoc.IH
      by (simp add: l addStrike_other addStrike_out_other m'_def out_def)
  qed
qed

text \<open>
  C7: within a single round (after a round update, with absentee notifications only),
  once exactly 3 strikes have been recorded for a public key a removal request carrying
  that key has been published, and after at most 2 strikes none has been.
\<close>

theorem strike_threshold:
  "(count_list xs pk = 3 \<longrightarrow>
      (RemoveProvisionerTopic, pk) \<in> set (snd (listen (RoundChan r # map AbsenteeChan xs) m)))
   \<and> (count_list xs pk \<le> 2 \<longrightarrow>
      (RemoveProvisionerTopic, pk) \<notin> set (snd (listen (RoundChan r # map AbsenteeChan xs) m)))"
proof -
  have z: "strikes_at (m\<lparr>strikes := Map.empty\<rparr>) (EncodeToString pk) = 0"
    by (simp add: strikes_at_def)
  have "snd (listen (RoundChan r # map AbsenteeChan xs) m)
          = snd (listen (map AbsenteeChan xs) (m\<lparr>strikes := Map.empty\<rparr>))"
    by (simp add: split_beta)
  then show ?thesis using strikes_invariant [OF z, of xs] by simp
qed

theorem strike_threshold_witness:
  "count_list [[1], [2], [1], [1]] [1 :: byte] = 3
   \<and> (RemoveProvisionerTopic, [1])
        \<in> set (snd (listen (RoundChan 10 # map AbsenteeChan [[1], [2], [1], [1]]) newModerator))
   \<and> count_list [[1], [1]] [1 :: byte] \<le> 2
   \<and> (RemoveProvisionerTopic, [1])
        \<notin> set (snd (listen (RoundChan 11 # map AbsenteeChan [[1], [1]]) newModerator))"
proof -
  have a: "count_list [[1], [2], [1], [1]] [1 :: byte] = 3" by simp
  have b: "count_list [[1], [1]] [1 :: byte] \<le> 2" by simp
  show ?thesis
    using a b
      strike_threshold [of "[[1], [2], [1], [1]]" "[1]" 10 newModerator]
      strike_threshold [of "[[1], [1]]" "[1]" 11 newModerator]
    by blast
qed

section \<open>Properties of the chain driver\<close>

lemma AcceptBlock_cases:
  "AcceptBlock env blk c =
     (if SanityCheckBlock env (prevBlock c) blk \<noteq> None
      then (SanityCheckBlock env (prevBlock c) blk, c)
      else if CheckBlockCertificate env (p_chain c) blk \<noteq> None
      then (CheckBlockCertificate env (p_chain c) blk, c)
      else case ExecuteStateTransition env (Txs blk) (Height (Header blk)) of
             Inl err \<Rightarrow> (Some err, c)
           | Inr provisioners \<Rightarrow>
               (case Append_error env blk (storage c) of
                  Some err \<Rightarrow> (Some err, c\<lparr>p_chain := provisioners\<rparr>)
                | None \<Rightarrow>
                    (None, c\<lparr>p_chain := provisioners, storage := storage c @ [blk],
                              bus := bus c @ [Gossip_Inv (Hash (Header blk)), AcceptedBlock blk],
                              prevBlock := blk\<rparr>)))"
  by (auto simp: AcceptBlock_def Append_def advertiseBlock_def Let_def
           split: option.splits sum.splits)

text \<open>
  C2, as stated, fails: \<^verbatim>\<open>AcceptBlock\<close> stores the executor's provisioners in the chain
  before it appends the block. When the append fails, the call returns the error and the
  provisioners registry has changed (here from 0 to 6).
\<close>

theorem AcceptBlock_append_failure_changes_provisioners:
  "fst (AcceptBlock ((collaborators_at 7)\<lparr>Append_error := (\<lambda>blk st. Some ''disk full'')\<rparr>)
          (block_at 6) (chain_at 5)) = Some ''disk full''
   \<and> p_chain (chain_at 5) = 0
   \<and> p_chain (snd (AcceptBlock ((collaborators_at 7)\<lparr>Append_error := (\<lambda>blk st. Some ''disk full'')\<rparr>)
          (block_at 6) (chain_at 5))) = 6"
  by (simp add: AcceptBlock_cases collaborators_at_def block_at_def chain_at_def)

text \<open>
  C2, amended: if \<^verbatim>\<open>AcceptBlock\<close> returns an error, the stored blocks, \<^verbatim>\<open>prevBlock\<close>
  and the intermediate block keep their prior values and nothing is published; if the
  error comes from the sanity check, the certificate check or the state transition, the
  whole chain state, the provisioners registry included, is unchanged.
\<close>

theorem AcceptBlock_error_unchanged:
  assumes "fst (AcceptBlock env blk c) = Some err"
  shows "storage (snd (AcceptBlock env blk c)) = storage c
       \<and> prevBlock (snd (AcceptBlock env blk c)) = prevBlock c
       \<and> intermediateBlock (snd (AcceptBlock env blk c)) = intermediateBlock c
       \<and> bus (snd (AcceptBlock env blk c)) = bus c
       \<and> (SanityCheckBlock env (prevBlock c) blk \<noteq> None
            \<or> CheckBlockCertificate env (p_chain c) blk \<noteq> None
            \<or> isl (ExecuteStateTransition env (Txs blk) (Height (Header blk)))
          \<longrightarrow> snd (AcceptBlock env blk c) = c)"
  using assms by (auto simp: AcceptBlock_cases split: sum.splits option.splits if_splits)

theorem AcceptBlock_error_unchanged_witness:
  "fst (AcceptBlock (collaborators_at 7) (block_at 9) (chain_at 5)) = Some ''wrong height''
   \<and> SanityCheckBlock (collaborators_at 7) (prevBlock (chain_at 5)) (block_at 9) \<noteq> None
   \<and> snd (AcceptBlock (collaborators_at 7) (block_at 9) (chain_at 5)) = chain_at 5
   \<and> storage (snd (AcceptBlock (collaborators_at 7) (block_at 9) (chain_at 5))) = storage (chain_at 5)"
proof -
  have e: "fst (AcceptBlock (collaborators_at 7) (block_at 9) (chain_at 5)) = Some ''wrong height''"
    by (simp add: AcceptBlock_cases collaborators_at_def block_at_def chain_at_def)
  have s: "SanityCheckBlock (collaborators_at 7) (prevBlock (chain_at 5)) (block_at 9) \<noteq> None"
    by (simp add: collaborators_at_def block_at_def chain_at_def)
  show ?thesis using e s AcceptBlock_error_unchanged [OF e] by blast
qed




lemma rounding_nonneg: "rounding f \<Longrightarrow> 0 \<le> x \<Longrightarrow> 0 \<le> f x"
  unfolding rounding_def by (metis monoD)

lemma rounding_ge_1: "rounding f \<Longrightarrow> 1 \<le> x \<Longrightarrow> 1 \<le> f x"
  unfolding rounding_def by (metis monoD)

lemma rounding_le_100: "rounding f \<Longrightarrow> x \<le> 100 \<Longrightarrow> f x \<le> 100"
  unfolding rounding_def by (metis monoD)

text \<open>
  C9: for every chain state the progress is in the interval from 0 to 100; it is 0 when
  no block has been seen from the network (\<^verbatim>\<open>highestSeen\<close> is 0), and otherwise the
  percentage of the tip height over the highest seen height, capped at 100, as the
  floating-point operations compute it. The divisor is at least 1 there.
\<close>

theorem GetSyncProgress_range:
  assumes r64: "rounding to_float64" and r32: "rounding to_float32"
  shows "0 \<le> GetSyncProgress to_float64 to_float32 c
       \<and> GetSyncProgress to_float64 to_float32 c \<le> 100
       \<and> (highestSeen c = 0 \<longrightarrow> GetSyncProgress to_float64 to_float32 c = 0)
       \<and> (highestSeen c \<noteq> 0 \<longrightarrow>
            1 \<le> to_float64 (real (unat (highestSeen c)))
            \<and> GetSyncProgress to_float64 to_float32 c
                = to_float32 (min 100 (to_float64 (to_float64
                    (to_float64 (real (unat (Height (Header (prevBlock c)))))
                       / to_float64 (real (unat (highestSeen c)))) * 100))))"
proof (cases "highestSeen c = 0")
  case True
  then show ?thesis by (simp add: GetSyncProgress_def)
next
  case False
  define num where "num = to_float64 (real (unat (Height (Header (prevBlock c)))))"
  define den where "den = to_float64 (real (unat (highestSeen c)))"
  define pct where "pct = to_float64 (to_float64 (num / den) * 100)"
  have "unat (highestSeen c) \<noteq> 0" using False by (simp add: unat_eq_0)
  then have "1 \<le> unat (highestSeen c)" by simp
  then have "real 1 \<le> real (unat (highestSeen c))" by (rule iffD2 [OF of_nat_le_iff])
  then have "1 \<le> real (unat (highestSeen c))" by (simp only: of_nat_1)
  then have den: "1 \<le> den" unfolding den_def by (rule rounding_ge_1 [OF r64])
  have num: "0 \<le> num" unfolding num_def by (rule rounding_nonneg [OF r64]) (rule of_nat_0_le_iff)
  have "0 \<le> num / den" using num den by simp
  then have "0 \<le> to_float64 (num / den) * 100" using rounding_nonneg [OF r64] by simp
  then have pct: "0 \<le> pct" unfolding pct_def by (rule rounding_nonneg [OF r64])
  have g: "GetSyncProgress to_float64 to_float32 c = to_float32 (min 100 pct)"
    using False by (simp add: GetSyncProgress_def Let_def pct_def num_def den_def min_def)
  have "0 \<le> to_float32 (min 100 pct)" using pct by (intro rounding_nonneg [OF r32]) simp
  moreover have "to_float32 (min 100 pct) \<le> 100" by (intro rounding_le_100 [OF r32]) simp
  ultimately show ?thesis using False g den
    by (simp add: pct_def num_def den_def)
qed

lemma rounding_id: "rounding (\<lambda>x. x)"
  by (simp add: rounding_def mono_def)

theorem GetSyncProgress_range_witness:
  "rounding (\<lambda>x :: real. x)
   \<and> highestSeen (chain_at 5\<lparr>highestSeen := 20\<rparr>) \<noteq> 0
   \<and> highestSeen (chain_at 5) = 0
   \<and> 0 \<le> GetSyncProgress (\<lambda>x. x) (\<lambda>x. x) (chain_at 5\<lparr>highestSeen := 20\<rparr>)
   \<and> GetSyncProgress (\<lambda>x. x) (\<lambda>x. x) (chain_at 5\<lparr>highestSeen := 20\<rparr>) \<le> 100
   \<and> GetSyncProgress (\<lambda>x. x) (\<lambda>x. x) (chain_at 5\<lparr>highestSeen := 20\<rparr>) = 25
   \<and> GetSyncProgress (\<lambda>x. x) (\<lambda>x. x) (chain_at 5) = 0"
proof -
  have h: "rounding (\<lambda>x :: real. x)" by (rule rounding_id)
  have a: "highestSeen (chain_at 5\<lparr>highestSeen := 20\<rparr>) \<noteq> 0" by simp
  have b: "highestSeen (chain_at 5) = 0" by (simp add: chain_at_def)
  note t1 = GetSyncProgress_range [OF h h, of "chain_at 5\<lparr>highestSeen := 20\<rparr>"]
  note t2 = GetSyncProgress_range [OF h h, of "chain_at 5"]
  have v: "GetSyncProgress (\<lambda>x. x) (\<lambda>x. x) (chain_at 5\<lparr>highestSeen := 20\<rparr>) = 25"
    using t1 a by (simp add: chain_at_def block_at_def)
  have z: "GetSyncProgress (\<lambda>x. x) (\<lambda>x. x) (chain_at 5) = 0"
    using t2 b by blast
  show ?thesis using h a b t1 v z by blast
qed

section \<open>Properties of the second-step reduction\<close>

lemma queue_loop_append:
  "queue_loop env first rnd step agg (pre @ post) =
     (case queue_loop env first rnd step agg pre of
        Continue agg' \<Rightarrow> queue_loop env first rnd step agg' post
      | Return res effs \<Rightarrow> Return res effs)"
  by (induction env first rnd step agg pre rule: queue_loop.induct)
     (simp_all split: pass.splits)

lemma select_loop_append:
  "select_loop env first rnd step agg (pre @ post) =
     (case select_loop env first rnd step agg pre of
        Continue agg' \<Rightarrow> select_loop env first rnd step agg' post
      | Return res effs \<Rightarrow> Return res effs)"
  by (induction env first rnd step agg pre rule: select_loop.induct)
     (simp_all split: pass.splits Message.splits)

lemma reduce_quorum:
  assumes "IsMember_handler env (Sender env rMsg) rnd step"
      and "collectReduction env agg rMsg rnd step = Inr (Some svm, agg')"
      and "stepVotesAreValid env [first, svm]"
      and "AmMember env rnd step"
      and "Sign env \<lparr>Round = rnd, Step = step, PubKeyBLS = BLSPubKeyBytes env,
                      BlockHash = BlockHash (Header_svm svm)\<rparr> = Inr sig"
  shows "reduce env first rnd step agg rMsg =
           Return (case Gossip_error env
                          \<lparr>Header_agr = \<lparr>Round = rnd, Step = step, PubKeyBLS = BLSPubKeyBytes env,
                                           BlockHash = BlockHash (Header_svm svm)\<rparr>,
                            Signature_agr = sig,
                            VotesPerStep = [StepVotes first, StepVotes svm]\<rparr> of
                     None \<Rightarrow> Next_Phase | Some err \<Rightarrow> Failed err)
                  [Gossiped \<lparr>Header_agr = \<lparr>Round = rnd, Step = step,
                                             PubKeyBLS = BLSPubKeyBytes env,
                                             BlockHash = BlockHash (Header_svm svm)\<rparr>,
                              Signature_agr = sig,
                              VotesPerStep = [StepVotes first, StepVotes svm]\<rparr>]"
  using assms by (simp add: reduce_def sendAgreement_def Let_def split: option.splits)


text \<open>
  C5, as stated, fails: the node is a committee member and the third vote reaches quorum,
  but the first step ended without a result (its step votes are empty, on the empty
  hash), so \<^verbatim>\<open>stepVotesAreValid\<close> is false and no agreement is gossiped.
\<close>

theorem Run_quorum_without_agreement:
  "AmMember phase_collaborators_3 10 3
   \<and> collectReduction phase_collaborators_3 2 [3] 10 3
       = Inr (Some \<lparr>Header_svm = \<lparr>Round = 10, Step = 3, PubKeyBLS = [9],
                                    BlockHash = replicate 32 1\<rparr>, StepVotes = 3\<rparr>, 3)
   \<and> Run phase_collaborators_3 (first_step_votes EmptyHash 0)
         [Reduction_message [1], Reduction_message [2], Reduction_message [3]] [] 10 3
       = (Next_Phase, [Sent_Reduction 10 3 EmptyHash])"
  by (simp add: Run_def reduce_def collectReduction_def createStepVoteMessage_def
        stepVotesAreValid_def phase_collaborators_3_def first_step_votes_def)

text \<open>
  C5, amended: at the end of second-step reduction, whenever quorum is reached (on a
  reduction of the queue or of the channel, from a committee member), the local node is a
  committee member for the round and step, both step votes are valid (not empty, and not
  on the empty hash) and the header is signed without error, the phase gossips an
  agreement that carries the first-step and the second-step \<^verbatim>\<open>StepVotes\<close>, in this
  order; it is the only thing gossiped after the node's own reduction.
\<close>

theorem Run_gossips_agreement:
  fixes env :: "('red, 'sv, 'agg) phase_collaborators"
    and rnd :: "64 word" and step :: "8 word" and sig :: bytes
    and first svm :: "'sv StepVotesMsg"
  defines "hdr \<equiv> \<lparr>Round = rnd, Step = step, PubKeyBLS = BLSPubKeyBytes env,
                   BlockHash = BlockHash (Header_svm svm)\<rparr>"
  defines "ev \<equiv> \<lparr>Header_agr = hdr, Signature_agr = sig,
                  VotesPerStep = [StepVotes first, StepVotes svm]\<rparr>"
  assumes member: "AmMember env rnd step"
      and sent: "SendReduction_error env rnd step (BlockHash (Header_svm first)) = None"
      and sender: "IsMember_handler env (Sender env rMsg) rnd step"
      and quorum: "collectReduction env agg rMsg rnd step = Inr (Some svm, agg')"
      and valid: "stepVotesAreValid env [first, svm]"
      and sign: "Sign env hdr = Inr sig"
      and reached:
        "(queue = pre @ Reduction_message rMsg # post
            \<and> queue_loop env first rnd step (NewAggregator env) pre = Continue agg)
         \<or> (queue_loop env first rnd step (NewAggregator env) queue = Continue agg0
            \<and> evChan = ins @ EvChan (Reduction_message rMsg) # rest
            \<and> select_loop env first rnd step agg0 ins = Continue agg
            \<and> ShouldProcess env (Reduction_message rMsg) rnd step)"
  shows "Run env first queue evChan rnd step =
           (case Gossip_error env ev of None \<Rightarrow> Next_Phase | Some err \<Rightarrow> Failed err,
            [Sent_Reduction rnd step (BlockHash (Header_svm first)), Gossiped ev])"
proof -
  have r: "reduce env first rnd step agg rMsg =
             Return (case Gossip_error env ev of None \<Rightarrow> Next_Phase | Some err \<Rightarrow> Failed err)
                    [Gossiped ev]"
    using reduce_quorum [OF sender quorum valid member sign [unfolded hdr_def]]
    by (simp add: ev_def hdr_def)
  from reached show ?thesis
  proof
    assume q: "queue = pre @ Reduction_message rMsg # post
            \<and> queue_loop env first rnd step (NewAggregator env) pre = Continue agg"
    then have "queue_loop env first rnd step (NewAggregator env) queue =
                 Return (case Gossip_error env ev of None \<Rightarrow> Next_Phase | Some err \<Rightarrow> Failed err)
                        [Gossiped ev]"
      by (simp add: queue_loop_append r)
    then show ?thesis using member sent by (simp add: Run_def)
  next
    assume c: "queue_loop env first rnd step (NewAggregator env) queue = Continue agg0
            \<and> evChan = ins @ EvChan (Reduction_message rMsg) # rest
            \<and> select_loop env first rnd step agg0 ins = Continue agg
            \<and> ShouldProcess env (Reduction_message rMsg) rnd step"
    then have "select_loop env first rnd step agg0 evChan =
                 Return (case Gossip_error env ev of None \<Rightarrow> Next_Phase | Some err \<Rightarrow> Failed err)
                        [Gossiped ev]"
      by (simp add: select_loop_append r)
    then show ?thesis using member sent c by (simp add: Run_def)
  qed
qed


theorem Run_gossips_agreement_witness:
  "AmMember phase_collaborators_3 10 3
   \<and> stepVotesAreValid phase_collaborators_3
        [first_step_votes (replicate 32 1) 3,
         \<lparr>Header_svm = \<lparr>Round = 10, Step = 3, PubKeyBLS = [9], BlockHash = replicate 32 1\<rparr>,
          StepVotes = 3\<rparr>]
   \<and> Run phase_collaborators_3 (first_step_votes (replicate 32 1) 3)
         [Reduction_message [1], Other_message, Reduction_message [2], Reduction_message [3]]
         [] 10 3
       = (Next_Phase,
          [Sent_Reduction 10 3 (replicate 32 1),
           Gossiped \<lparr>Header_agr = \<lparr>Round = 10, Step = 3, PubKeyBLS = [9],
                                     BlockHash = replicate 32 1\<rparr>,
                      Signature_agr = [7], VotesPerStep = [3, 3]\<rparr>])
   \<and> Run phase_collaborators_3 (first_step_votes (replicate 32 1) 3)
         [Reduction_message [1]]
         [EvChan (Reduction_message [2]), EvChan (Reduction_message [3]), TimeoutChan] 10 3
       = (Next_Phase,
          [Sent_Reduction 10 3 (replicate 32 1),
           Gossiped \<lparr>Header_agr = \<lparr>Round = 10, Step = 3, PubKeyBLS = [9],
                                     BlockHash = replicate 32 1\<rparr>,
                      Signature_agr = [7], VotesPerStep = [3, 3]\<rparr>])"
proof -
  let ?env = phase_collaborators_3
  let ?first = "first_step_votes (replicate 32 1) 3"
  let ?svm = "\<lparr>Header_svm = \<lparr>Round = 10, Step = 3, PubKeyBLS = [9], BlockHash = replicate 32 1\<rparr>,
               StepVotes = 3 :: nat\<rparr>"
  have member: "AmMember ?env 10 3" by (simp add: phase_collaborators_3_def)
  have sent: "SendReduction_error ?env 10 3 (BlockHash (Header_svm ?first)) = None"
    by (simp add: phase_collaborators_3_def)
  have sender: "IsMember_handler ?env (Sender ?env [3]) 10 3"
    by (simp add: phase_collaborators_3_def)
  have quorum: "collectReduction ?env 2 [3] 10 3 = Inr (Some ?svm, 3)"
    by (simp add: collectReduction_def createStepVoteMessage_def phase_collaborators_3_def)
  have valid: "stepVotesAreValid ?env [?first, ?svm]"
    by (simp add: stepVotesAreValid_def phase_collaborators_3_def first_step_votes_def
          EmptyHash_def)
  have sign: "Sign ?env \<lparr>Round = 10, Step = 3, PubKeyBLS = BLSPubKeyBytes ?env,
                          BlockHash = BlockHash (Header_svm ?svm)\<rparr> = Inr [7]"
    by (simp add: phase_collaborators_3_def)
  have q: "[Reduction_message [1], Other_message, Reduction_message [2], Reduction_message [3]]
             = [Reduction_message [1], Other_message, Reduction_message [2]]
               @ Reduction_message [3] # []
           \<and> queue_loop ?env ?first 10 3 (NewAggregator ?env)
               [Reduction_message [1], Other_message, Reduction_message [2]] = Continue 2"
    by (simp add: reduce_def collectReduction_def createStepVoteMessage_def
          phase_collaborators_3_def)
  have c: "queue_loop ?env ?first 10 3 (NewAggregator ?env) [Reduction_message [1]] = Continue 1
           \<and> [EvChan (Reduction_message [2]), EvChan (Reduction_message [3]), TimeoutChan]
               = [EvChan (Reduction_message [2])] @ EvChan (Reduction_message [3]) # [TimeoutChan]
           \<and> select_loop ?env ?first 10 3 1 [EvChan (Reduction_message [2])] = Continue 2
           \<and> ShouldProcess ?env (Reduction_message [3]) 10 3"
    by (simp add: reduce_def collectReduction_def createStepVoteMessage_def
          phase_collaborators_3_def)
  have g: "Gossip_error ?env ev = None" for ev by (simp add: phase_collaborators_3_def)
  have k: "BLSPubKeyBytes ?env = [9]" by (simp add: phase_collaborators_3_def)
  have f: "StepVotes ?first = 3" "BlockHash (Header_svm ?first) = replicate 32 1"
    by (simp_all add: first_step_votes_def)
  note t1 = Run_gossips_agreement [OF member sent sender quorum valid sign disjI1 [OF q]]
  note t2 = Run_gossips_agreement [OF member sent sender quorum valid sign disjI2 [OF c]]
  show ?thesis
    using member valid t1 t2 by (simp add: g k f)
qed

section \<open>Properties of the voucher client\<close>

subsection \<open>Two digests\<close>

lemma replicate_numeral_byte: "replicate (numeral k) x = x # replicate (pred_numeral k) x"
  by (simp add: numeral_eq_Suc)

lemmas sha256_round_defs =
  K_sha256_def next_w_def t1_sha256_def t2_sha256_def shift_state_def RotateRight32_def
  add32_def not32_def

lemma rounds_ABCkey:
  "rounds K_sha256 [1094861675, 1702461440, 0, 0, 0, 0, 0, 0, 0, 0, 0, 0, 0, 0, 0, 48]
     [1779033703, 3144134277, 1013904242, 2773480762, 1359893119, 2600822924, 528734635,
      1541459225]
   = [1649702770, 160155572, 191756, 2095848885, 2757502816, 759105559, 3469757719,
      3834808007]"
  by (simp add: sha256_round_defs)

lemma rounds_challenge:
  "rounds K_sha256 [1094861578, 0, 0, 0, 0, 0, 0, 0, 0, 0, 0, 0, 0, 0, 0, 0]
     [1779033703, 3144134277, 1013904242, 2773480762, 1359893119, 2600822924, 528734635,
      1541459225]
   = [3395050543, 1117718547, 1150562320, 1767444506, 3575902056, 411268894, 855327276,
      887966308]"
  by (simp add: sha256_round_defs)

lemma rounds_key:
  "rounds K_sha256 [1801812352, 0, 0, 0, 0, 0, 0, 0, 0, 0, 0, 0, 0, 0, 0, 536]
     [879116950, 4261852824, 2164466562, 245957972, 640827879, 3012091818, 1384061911,
      2429425533]
   = [4172993238, 3137909746, 3917855258, 2620734794, 2351080021, 2585847243, 2129054836,
      307830998]"
  by (simp add: sha256_round_defs)

lemma blockGeneric_short: "length p < 64 \<Longrightarrow> blockGeneric h p = h"
  by (subst blockGeneric.simps) simp

lemma blockGeneric_64: "length p = 64 \<Longrightarrow> blockGeneric h p = block_sha256 h p"
  by (subst blockGeneric.simps) (simp add: blockGeneric_short)

lemma blockGeneric_128:
  "length p = 128 \<Longrightarrow>
   blockGeneric h p = block_sha256 (block_sha256 h (take 64 p)) (drop 64 p)"
  by (subst blockGeneric.simps) (simp add: blockGeneric_64)

lemma Sum256_ABCkey:
  "Sum256 [65, 66, 67, 107, 101, 121] =
     [204, 94, 93, 217, 196, 243, 118, 57, 60, 113, 224, 126, 34, 60, 18, 239, 245, 106, 121,
      223, 200, 68, 112, 163, 238, 84, 38, 194, 64, 115, 83, 224]"
proof -
  have p: "[65, 66, 67, 107, 101, 121] @ pad_sha256 (length [65, 66, 67, 107, 101, 121 :: byte])
        = [65, 66, 67, 107, 101, 121, 128, 0, 0, 0, 0, 0, 0, 0, 0, 0, 0, 0, 0, 0,
           0, 0, 0, 0, 0, 0, 0, 0, 0, 0, 0, 0, 0, 0, 0, 0, 0, 0, 0, 0, 0, 0, 0, 0,
           0, 0, 0, 0, 0, 0, 0, 0, 0, 0, 0, 0, 0, 0, 0, 0, 0, 0, 0, 48 :: byte]"
    by (simp add: pad_sha256_def upt_rec replicate_numeral_byte)
  have w: "be32 [65, 66, 67, 107, 101, 121, 128, 0, 0, 0, 0, 0, 0, 0, 0, 0, 0, 0, 0, 0,
           0, 0, 0, 0, 0, 0, 0, 0, 0, 0, 0, 0, 0, 0, 0, 0, 0, 0, 0, 0, 0, 0, 0, 0,
           0, 0, 0, 0, 0, 0, 0, 0, 0, 0, 0, 0, 0, 0, 0, 0, 0, 0, 0, 48]
        = [1094861675, 1702461440, 0, 0, 0, 0, 0, 0, 0, 0, 0, 0, 0, 0, 0, 48]"
    by simp
  show ?thesis
    unfolding Sum256_def p
    by (simp add: blockGeneric_64 block_sha256_def w init_sha256_def rounds_ABCkey
          add32_def PutUint32_def)
qed

lemma Sum256_challenge_key:
  "Sum256 ([65, 66, 67, 10] @ replicate 60 0 @ [107, 101, 121]) =
     [45, 33, 21, 108, 185, 15, 106, 138, 106, 136, 221, 156, 170, 222, 66, 158, 178, 84, 228,
      60, 77, 169, 197, 117, 209, 101, 232, 75, 163, 39, 56, 83]"
proof -
  have l: "length ([65, 66, 67, 10] @ replicate 60 0 @ [107, 101, 121 :: byte]) = 67"
    by simp
  have pd: "pad_sha256 67 = 128 # replicate 52 0 @ [0, 0, 0, 0, 0, 0, 2, 24]"
    by (simp add: pad_sha256_def upt_rec)
  have t: "take 64 (([65, 66, 67, 10] @ replicate 60 0 @ [107, 101, 121 :: byte]) @ pad_sha256 67)
             = [65, 66, 67, 10] @ replicate 60 0"
    by simp
  have d: "drop 64 (([65, 66, 67, 10] @ replicate 60 0 @ [107, 101, 121 :: byte]) @ pad_sha256 67)
             = [107, 101, 121] @ pad_sha256 67"
    by simp
  have w1: "be32 ([65, 66, 67, 10] @ replicate 60 0)
             = [1094861578, 0, 0, 0, 0, 0, 0, 0, 0, 0, 0, 0, 0, 0, 0, 0]"
    by (simp add: replicate_numeral_byte)
  have w2: "be32 ([107, 101, 121] @ pad_sha256 67)
             = [1801812352, 0, 0, 0, 0, 0, 0, 0, 0, 0, 0, 0, 0, 0, 0, 536]"
    by (simp add: pd replicate_numeral_byte)
  have b1: "block_sha256 init_sha256 ([65, 66, 67, 10] @ replicate 60 0)
             = [879116950, 4261852824, 2164466562, 245957972, 640827879, 3012091818,
                1384061911, 2429425533]"
    unfolding block_sha256_def w1 by (simp add: init_sha256_def rounds_challenge add32_def)
  have b2: "block_sha256 [879116950, 4261852824, 2164466562, 245957972, 640827879, 3012091818,
                1384061911, 2429425533] ([107, 101, 121] @ pad_sha256 67)
             = [757142892, 3104795274, 1787354524, 2866692766, 2991907900, 1302971765,
                3513116747, 2737256531]"
    unfolding block_sha256_def w2 by (simp add: rounds_key add32_def)
  have "length (([65, 66, 67, 10] @ replicate 60 0 @ [107, 101, 121 :: byte]) @ pad_sha256 67) = 128"
    by (simp add: pd)
  then show ?thesis
    unfolding Sum256_def l
    by (simp only: blockGeneric_128 t d b1 b2) (simp add: PutUint32_def)
qed

subsection \<open>The response\<close>

lemma Split_first: "Split s sep \<noteq> [] \<and> Split s sep ! 0 = takeWhile (\<lambda>c. c \<noteq> sep) s"
  by (induction s) (auto split: list.splits)

lemma byte_of_char_of: "(of_nat (of_char (char_of (unat v) :: char)) :: byte) = v"
proof -
  have "unat v < 256" using unsigned_less [of v, where 'a = nat] by simp
  then show ?thesis by simp
qed

lemma bytes_of_string_of: "bytes_of (string_of b) = b"
  by (simp add: bytes_of_def string_of_def comp_def byte_of_char_of del: of_char_of)

lemma char_of_byte_eq: "(char_of (unat (v :: byte)) = (char_of (unat (w :: byte)) :: char)) = (v = w)"
proof
  assume "char_of (unat v) = (char_of (unat w) :: char)"
  then have "(of_nat (of_char (char_of (unat v) :: char)) :: byte)
               = of_nat (of_char (char_of (unat w) :: char))"
    by simp
  then show "v = w" by (simp only: byte_of_char_of)
qed simp

lemma newline_char: "CHR 0x0A = (char_of (unat (0x0A :: byte)) :: char)"
  by (simp add: char_of_def bit_0)

lemma generated_bytes:
  "bytes_of (Split (string_of buf) (CHR 0x0A) ! 0) = takeWhile (\<lambda>b. b \<noteq> 0x0A) buf"
proof -
  have "takeWhile (\<lambda>c. c \<noteq> CHR 0x0A) (string_of buf)
          = string_of (takeWhile (\<lambda>b. b \<noteq> 0x0A) buf)"
    unfolding string_of_def takeWhile_map newline_char
    by (simp only: comp_def char_of_byte_eq)
  then show ?thesis by (simp add: Split_first bytes_of_string_of)
qed

lemma completeChallenge_written:
  fixes challenge :: bytes and SEEDER_KEY Port :: string
  assumes "length challenge = 64"
  shows "completeChallenge (Inr challenge) write_error SEEDER_KEY Port
           = (write_error
                (bytes_of (ToUpper (EncodeToString
                     (Sum256 (takeWhile (\<lambda>b. b \<noteq> 0x0A) challenge @ bytes_of SEEDER_KEY)))
                   @ '','' @ Port @ [CHR 0x0A])),
              Some (bytes_of (ToUpper (EncodeToString
                     (Sum256 (takeWhile (\<lambda>b. b \<noteq> 0x0A) challenge @ bytes_of SEEDER_KEY)))
                   @ '','' @ Port @ [CHR 0x0A])))"
  using assms by (simp add: completeChallenge_def Let_def generated_bytes)

text \<open>
  C8, amended: for every 64-byte challenge read from the seeder and every
  \<^verbatim>\<open>SEEDER_KEY\<close>, the bytes written back are the upper-case hex of the SHA-256 of the
  challenge cut at its first newline, followed by the key; then \<open>,\<close>, the port and a
  newline. For a challenge without a newline this is the response on the whole challenge.
\<close>

theorem completeChallenge_response:
  fixes challenge :: bytes and SEEDER_KEY Port :: string
  assumes "length challenge = 64"
  defines "generated \<equiv> takeWhile (\<lambda>b. b \<noteq> 0x0A) challenge"
  defines "response \<equiv>
             bytes_of (ToUpper (EncodeToString (Sum256 (generated @ bytes_of SEEDER_KEY)))
                       @ '','' @ Port @ [CHR 0x0A])"
  shows "completeChallenge (Inr challenge) write_error SEEDER_KEY Port
           = (write_error response, Some response)
       \<and> (0x0A \<notin> set challenge \<longrightarrow> response = spec_response challenge SEEDER_KEY Port)"
proof -
  have g: "0x0A \<notin> set challenge \<Longrightarrow> generated = challenge"
    unfolding generated_def by (rule takeWhile_eq_all_conv [THEN iffD2]) auto
  show ?thesis
    using completeChallenge_written [OF assms(1), of write_error SEEDER_KEY Port] g
    by (simp add: response_def spec_response_def flip: generated_def)
qed

lemma response_ABCkey:
  "bytes_of (ToUpper (EncodeToString
       [204, 94, 93, 217, 196, 243, 118, 57, 60, 113, 224, 126, 34, 60, 18, 239, 245, 106, 121,
        223, 200, 68, 112, 163, 238, 84, 38, 194, 64, 115, 83, 224]) @ '','' @ ''7447'' @ [CHR 0x0A])
   = bytes_of (''CC5E5DD9C4F376393C71E07E223C12EFF56A79DFC84470A3EE5426C2407353E0,7447''
               @ [CHR 0x0A])"
  by code_simp

lemma response_challenge_key:
  "bytes_of (ToUpper (EncodeToString
       [45, 33, 21, 108, 185, 15, 106, 138, 106, 136, 221, 156, 170, 222, 66, 158, 178, 84, 228,
        60, 77, 169, 197, 117, 209, 101, 232, 75, 163, 39, 56, 83]) @ '','' @ ''7447'' @ [CHR 0x0A])
   = bytes_of (''2D21156CB90F6A8A6A88DD9CAADE429EB254E43C4DA9C575D165E84BA3273853,7447''
               @ [CHR 0x0A])"
  by code_simp

lemma responses_differ:
  "bytes_of (''CC5E5DD9C4F376393C71E07E223C12EFF56A79DFC84470A3EE5426C2407353E0,7447''
               @ [CHR 0x0A])
   \<noteq> bytes_of (''2D21156CB90F6A8A6A88DD9CAADE429EB254E43C4DA9C575D165E84BA3273853,7447''
               @ [CHR 0x0A])"
  by (simp add: bytes_of_def)

text \<open>
  C8, as stated, fails: for the 64-byte challenge \<open>ABC\<close>, newline, 60 zero bytes, with the
  key \<open>key\<close> and the port \<open>7447\<close>, the handshake writes the hex of the SHA-256 of
  \<open>ABCkey\<close>, not that of the 64 bytes followed by the key.
\<close>

theorem completeChallenge_stops_at_newline:
  "length ([65, 66, 67, 10] @ replicate 60 (0 :: byte)) = 64
   \<and> completeChallenge (Inr ([65, 66, 67, 10] @ replicate 60 0)) (\<lambda>b. None) ''key'' ''7447''
       = (None, Some (bytes_of
           (''CC5E5DD9C4F376393C71E07E223C12EFF56A79DFC84470A3EE5426C2407353E0,7447''
            @ [CHR 0x0A])))
   \<and> spec_response ([65, 66, 67, 10] @ replicate 60 0) ''key'' ''7447''
       = bytes_of (''2D21156CB90F6A8A6A88DD9CAADE429EB254E43C4DA9C575D165E84BA3273853,7447''
            @ [CHR 0x0A])
   \<and> snd (completeChallenge (Inr ([65, 66, 67, 10] @ replicate 60 0)) (\<lambda>b. None) ''key'' ''7447'')
       \<noteq> Some (spec_response ([65, 66, 67, 10] @ replicate 60 0) ''key'' ''7447'')"
proof -
  have l: "length ([65, 66, 67, 10] @ replicate 60 (0 :: byte)) = 64" by simp
  have k: "bytes_of ''key'' = [107, 101, 121]" by (simp add: bytes_of_def)
  have g: "takeWhile (\<lambda>b. b \<noteq> 0x0A) ([65, 66, 67, 10] @ replicate 60 (0 :: byte)) = [65, 66, 67]"
    by simp
  have d: "Sum256 ([65, 66, 67] @ [107, 101, 121]) =
     [204, 94, 93, 217, 196, 243, 118, 57, 60, 113, 224, 126, 34, 60, 18, 239, 245, 106, 121,
      223, 200, 68, 112, 163, 238, 84, 38, 194, 64, 115, 83, 224]"
    using Sum256_ABCkey by simp
  have c: "completeChallenge (Inr ([65, 66, 67, 10] @ replicate 60 0)) (\<lambda>b. None) ''key'' ''7447''
       = (None, Some (bytes_of
           (''CC5E5DD9C4F376393C71E07E223C12EFF56A79DFC84470A3EE5426C2407353E0,7447''
            @ [CHR 0x0A])))"
    using completeChallenge_written [OF l, of "\<lambda>b. None" "''key''" "''7447''"]
    unfolding g k d response_ABCkey .
  have d2: "Sum256 (([65, 66, 67, 10] @ replicate 60 0) @ [107, 101, 121]) =
     [45, 33, 21, 108, 185, 15, 106, 138, 106, 136, 221, 156, 170, 222, 66, 158, 178, 84, 228,
      60, 77, 169, 197, 117, 209, 101, 232, 75, 163, 39, 56, 83]"
    using Sum256_challenge_key by simp
  have s: "spec_response ([65, 66, 67, 10] @ replicate 60 0) ''key'' ''7447''
       = bytes_of (''2D21156CB90F6A8A6A88DD9CAADE429EB254E43C4DA9C575D165E84BA3273853,7447''
            @ [CHR 0x0A])"
    unfolding spec_response_def k d2 response_challenge_key ..
  show ?thesis unfolding c s using l responses_differ by simp
qed

theorem completeChallenge_response_witness:
  "length (replicate 64 (65 :: byte)) = 64
   \<and> 0x0A \<notin> set (replicate 64 (65 :: byte))
   \<and> completeChallenge (Inr (replicate 64 65)) (\<lambda>b. None) ''key'' ''7447''
       = (None, Some (spec_response (replicate 64 65) ''key'' ''7447''))"
proof -
  have l: "length (replicate 64 (65 :: byte)) = 64" by simp
  have n: "0x0A \<notin> set (replicate 64 (65 :: byte))" by simp
  show ?thesis
    using l n completeChallenge_response [OF l, of "\<lambda>b. None" "''key''" "''7447''"]
    by simp
qed

section \<open>Properties of the block certificate\<close>

lemma length_le_bytes: "length (le_bytes k n) = k"
  by (induction k arbitrary: n) simp_all

lemma le_nat_le_bytes: "n < 256 ^ k \<Longrightarrow> le_nat (le_bytes k n) = n"
proof (induction k arbitrary: n)
  case 0
  then show ?case by simp
next
  case (Suc k)
  then have "n div 256 < 256 ^ k" by (simp add: less_mult_imp_div_less mult.commute)
  then have "le_nat (le_bytes k (n div 256)) = n div 256" by (rule Suc.IH)
  moreover have "unat (of_nat (n mod 256) :: byte) = n mod 256"
    by (simp add: unat_of_nat)
  ultimately show ?case by simp
qed

lemma read_exact_append: "length b = n \<Longrightarrow> read_exact n (b @ r) = Inr (b, r)"
  by (simp add: read_exact_def)

lemma read_le:
  "n < 256 ^ k \<Longrightarrow> read_exact k (le_bytes k n @ r) = Inr (le_bytes k n, r)
                   \<and> le_nat (le_bytes k n) = n"
  by (simp add: read_exact_append length_le_bytes le_nat_le_bytes)

lemma ReadUint32_written: "ReadUint32 (le_bytes 4 (unat v) @ r) = Inr (v, r)"
proof -
  have "unat v < 256 ^ 4" using unsigned_less [of v, where 'a = nat] by simp
  then show ?thesis by (simp add: ReadUint32_def read_le)
qed

lemma ReadVarInt_VarInt: "ReadVarInt (VarInt v @ r) = Inr (v, r)"
proof -
  consider (a) "v < 0xfd" | (b) "\<not> v < 0xfd" "v \<le> 0xffff"
    | (c) "\<not> v \<le> 0xffff" "v \<le> 0xffffffff" | (d) "\<not> v \<le> 0xffffffff"
    by fastforce
  then show ?thesis
  proof cases
    case a
    then have u: "unat v < 253" by (simp add: word_less_nat_alt)
    have "unat (of_nat (unat v) :: byte) = unat v mod 2 ^ LENGTH(8)" by (rule unat_of_nat)
    then have "unat (of_nat (unat v) :: byte) = unat v" using u by simp
    then have d: "(of_nat (unat v) :: byte) \<noteq> 0xff \<and> (of_nat (unat v) :: byte) \<noteq> 0xfe
                \<and> (of_nat (unat v) :: byte) \<noteq> 0xfd
                \<and> (of_nat (unat (of_nat (unat v) :: byte)) :: 64 word) = v"
      using u by (auto simp: word_unat_eq_iff)
    show ?thesis using a d by (simp add: VarInt_def ReadVarInt_def)
  next
    case b
    then have "unat v < 256 ^ 2" by (simp add: word_le_nat_alt)
    then show ?thesis using b by (simp add: VarInt_def ReadVarInt_def read_le)
  next
    case c
    then have "unat v < 256 ^ 4" by (simp add: word_le_nat_alt)
    moreover have "\<not> v < 0xfd" using c by (simp add: word_le_nat_alt word_less_nat_alt)
    ultimately show ?thesis using c by (simp add: VarInt_def ReadVarInt_def read_le)
  next
    case d
    have "unat v < 256 ^ 8" using unsigned_less [of v, where 'a = nat] by simp
    moreover have "\<not> v < 0xfd" "\<not> v \<le> 0xffff"
      using d by (simp_all add: word_le_nat_alt word_less_nat_alt)
    ultimately show ?thesis using d by (simp add: VarInt_def ReadVarInt_def read_le)
  qed
qed

lemma ReadVarBytes_VarBytes:
  "length b < 2 ^ 64 \<Longrightarrow> ReadVarBytes (VarBytes b @ r) = Inr (b, r)"
  by (simp add: ReadVarBytes_def VarBytes_def ReadVarInt_VarInt unat_of_nat read_exact_append)

lemma write_keys_eq: "write_keys w pks = Inr (w @ concat (map VarBytes pks))"
  by (induction pks arbitrary: w) (simp_all add: WriteVarBytes_def)

lemma read_keys_written:
  "\<forall>pk \<in> set pks. length pk < 2 ^ 64 \<Longrightarrow>
   read_keys (length pks) (concat (map VarBytes pks) @ r) = Inr (pks, r)"
  by (induction pks) (simp_all add: ReadVarBytes_VarBytes)

lemma EncodeHashable_eq:
  "length (BRBatchedSig c) = BLS_size \<Longrightarrow> length (SRBatchedSig c) = BLS_size \<Longrightarrow>
   EncodeHashable c w =
     Inr (w @ BRBatchedSig c @ le_bytes 4 (unat (BRStep c))
            @ VarInt (of_nat (length (BRPubKeys c))) @ concat (map VarBytes (BRPubKeys c))
            @ SRBatchedSig c @ le_bytes 4 (unat (SRStep c))
            @ VarInt (of_nat (length (SRPubKeys c))) @ concat (map VarBytes (SRPubKeys c)))"
  by (simp add: EncodeHashable_def WriteBLS_def WriteUint32_def WriteVarInt_def write_keys_eq)

lemma Decode_written:
  assumes "length brSig = BLS_size" "length srSig = BLS_size" "length h = 32"
      and "length brKeys < 2 ^ 64" "length srKeys < 2 ^ 64"
      and "\<forall>pk \<in> set brKeys. length pk < 2 ^ 64" "\<forall>pk \<in> set srKeys. length pk < 2 ^ 64"
  shows "Decode (brSig @ le_bytes 4 (unat brStep)
            @ VarInt (of_nat (length brKeys)) @ concat (map VarBytes brKeys)
            @ srSig @ le_bytes 4 (unat srStep)
            @ VarInt (of_nat (length srKeys)) @ concat (map VarBytes srKeys) @ h @ r)
         = Inr (\<lparr>BRBatchedSig = brSig, BRStep = brStep, BRPubKeys = brKeys,
                 SRBatchedSig = srSig, SRStep = srStep, SRPubKeys = srKeys, Hash_cert = h\<rparr>, r)"
  using assms
  by (simp add: Decode_def ReadBLS_def Read256_def read_exact_append ReadUint32_written
        ReadVarInt_VarInt unat_of_nat read_keys_written)

text \<open>
  C6: for every valid certificate, \<^verbatim>\<open>Encode\<close> succeeds and decoding its output yields
  the same certificate, field for field, with no input left over.
\<close>

theorem Decode_Encode:
  assumes "valid_Certificate c"
  shows "\<exists>encoded. Encode c [] = Inr encoded \<and> Decode encoded = Inr (c, [])"
proof -
  from assms have v: "length (BRBatchedSig c) = BLS_size" "length (SRBatchedSig c) = BLS_size"
    "length (Hash_cert c) = 32" "length (BRPubKeys c) < 2 ^ 64" "length (SRPubKeys c) < 2 ^ 64"
    "\<forall>pk \<in> set (BRPubKeys c). length pk < 2 ^ 64"
    "\<forall>pk \<in> set (SRPubKeys c). length pk < 2 ^ 64"
    by (auto simp: valid_Certificate_def)
  have e: "Encode c [] =
     Inr (BRBatchedSig c @ le_bytes 4 (unat (BRStep c))
            @ VarInt (of_nat (length (BRPubKeys c))) @ concat (map VarBytes (BRPubKeys c))
            @ SRBatchedSig c @ le_bytes 4 (unat (SRStep c))
            @ VarInt (of_nat (length (SRPubKeys c))) @ concat (map VarBytes (SRPubKeys c))
            @ Hash_cert c @ [])"
    using v by (simp add: Encode_def EncodeHashable_eq Write256_def)
  have d: "Decode (BRBatchedSig c @ le_bytes 4 (unat (BRStep c))
            @ VarInt (of_nat (length (BRPubKeys c))) @ concat (map VarBytes (BRPubKeys c))
            @ SRBatchedSig c @ le_bytes 4 (unat (SRStep c))
            @ VarInt (of_nat (length (SRPubKeys c))) @ concat (map VarBytes (SRPubKeys c))
            @ Hash_cert c @ []) = Inr (c, [])"
    using Decode_written [OF v, of "BRStep c" "SRStep c" "[]"] by simp
  show ?thesis using e d by blast
qed

theorem Decode_Encode_witness:
  "valid_Certificate example_Certificate
   \<and> (\<exists>encoded. Encode example_Certificate [] = Inr encoded
                 \<and> Decode encoded = Inr (example_Certificate, []))"
proof -
  have v: "valid_Certificate example_Certificate"
    by (simp add: valid_Certificate_def example_Certificate_def BLS_size_def)
  show ?thesis using v Decode_Encode [OF v] by blast
qed

section \<open>Properties of the signature-set collector\<close>

lemma Process_Suc:
  "Process (Suc n) env ev s =
     (if ShouldBeSkipped env ev \<or> (CurrentRound s \<noteq> 0 \<and> Round_ev ev < CurrentRound s)
      then Some (s, [ev])
      else if CurrentRound s < Round_ev ev
      then Some (s\<lparr>futureRounds :=
                      (futureRounds s)(Round_ev ev := futureRounds s (Round_ev ev) @ [ev])\<rparr>, [ev])
      else if int (length (StepEventCollector s (Step_ev ev))) + 1 < Quorum_committee env
      then Some (s\<lparr>RepropagationChannel := RepropagationChannel s @ [ev],
                    StepEventCollector := Store env ev (Step_ev ev) (StepEventCollector s)\<rparr>, [ev])
      else (case nextRound n env s of None \<Rightarrow> None | Some (s', evs) \<Rightarrow> Some (s', ev # evs)))"
  by (auto simp: ShouldBeStored_def Let_def)

declare Process.simps(2) [simp del]

lemma Process_dropped:
  assumes "Round_ev ev < CurrentRound s"
  shows "Process (Suc n) env ev s = Some (s, [ev])"
proof -
  have "CurrentRound s \<noteq> 0" using assms by (auto simp: word_less_nat_alt)
  then show ?thesis using assms by (simp add: Process_Suc)
qed

lemma Process_future:
  assumes "CurrentRound s < Round_ev ev" and "\<not> ShouldBeSkipped env ev"
  shows "Process (Suc n) env ev s =
           Some (s\<lparr>futureRounds := (futureRounds s)(Round_ev ev := futureRounds s (Round_ev ev) @ [ev])\<rparr>,
                 [ev])"
proof -
  have "\<not> Round_ev ev < CurrentRound s" using assms(1) by simp
  then show ?thesis using assms by (simp add: Process_Suc)
qed

lemma Process_trace:
  assumes "Process n env ev s = Some (s', t)"
  shows "ev \<in> set t"
proof (cases n)
  case 0
  then show ?thesis using assms by simp
next
  case (Suc m)
  then have "\<exists>t'. t = ev # t'"
    using assms by (auto simp: Process_Suc split: if_splits option.splits prod.splits)
  then show ?thesis by auto
qed

lemma range_trace:
  "range_currentEvents n env evs s = Some (s', t) \<Longrightarrow> set evs \<subseteq> set t"
proof (induction evs arbitrary: s s' t)
  case Nil
  then show ?case by simp
next
  case (Cons e evs)
  from Cons.prems obtain s1 t1 s2 t2 where
    p: "Process n env e s = Some (s1, t1)" and
    r: "range_currentEvents n env evs s1 = Some (s2, t2)" and
    t: "t = t1 @ t2"
    by (auto split: option.splits)
  from Process_trace [OF p] Cons.IH [OF r] t show ?case by auto
qed

lemma nextRound_trace:
  "nextRound n env s = Some (s', t) \<Longrightarrow> set (futureRounds s (CurrentRound s + 1)) \<subseteq> set t"
  by (auto simp: nextRound.simps UpdateRound_def Let_def dest: range_trace)

lemma Process_other_round:
  assumes "CurrentRound u \<noteq> Round_ev e"
  shows "Process (Suc m) env e u = Some (u, [e])
       \<or> Process (Suc m) env e u =
           Some (u\<lparr>futureRounds := (futureRounds u)(Round_ev e := futureRounds u (Round_ev e) @ [e])\<rparr>,
                 [e])"
proof (cases "ShouldBeSkipped env e \<or> (CurrentRound u \<noteq> 0 \<and> Round_ev e < CurrentRound u)")
  case True
  then show ?thesis by (simp add: Process_Suc)
next
  case False
  then have "CurrentRound u = 0 \<or> CurrentRound u \<le> Round_ev e" by auto
  then have "CurrentRound u < Round_ev e"
  proof
    assume z: "CurrentRound u = 0"
    then have "Round_ev e \<noteq> 0" using assms by simp
    then show ?thesis using z by (simp add: word_neq_0_conv)
  next
    assume "CurrentRound u \<le> Round_ev e"
    then show ?thesis using assms by simp
  qed
  then show ?thesis using False by (simp add: Process_Suc)
qed

lemma Process_same_round:
  assumes "CurrentRound u = Round_ev e"
  shows "Process (Suc m) env e u = Some (u, [e])
       \<or> Process (Suc m) env e u =
           Some (u\<lparr>RepropagationChannel := RepropagationChannel u @ [e],
                    StepEventCollector := Store env e (Step_ev e) (StepEventCollector u)\<rparr>, [e])
       \<or> Process (Suc m) env e u =
           (case nextRound m env u of None \<Rightarrow> None | Some (s', evs) \<Rightarrow> Some (s', e # evs))"
  using assms by (simp add: Process_Suc)

lemma stored_by_round_store:
  "stored_by_round u \<Longrightarrow>
   stored_by_round (u\<lparr>futureRounds := (futureRounds u)(Round_ev e := futureRounds u (Round_ev e) @ [e])\<rparr>)"
  by (auto simp: stored_by_round_def)

lemma distance_step:
  fixes E r :: "64 word"
  assumes "unat (E - r) = Suc d"
  shows "unat (E - (r + 1)) = d"
proof -
  have "E - r \<noteq> 0" using assms by (auto simp: unat_eq_0)
  then have "unat (E - r - 1) = unat (E - r) - 1" by (rule unat_minus_one)
  then have m: "unat (E - r - 1) = d" by (simp only: assms diff_Suc_1)
  have e: "E - (r + 1) = E - r - 1" by simp
  show ?thesis by (simp only: e m)
qed

lemma nextRound_returns:
  assumes "stored_by_round s" and "futureRounds s E = []"
      and "unat (E - (CurrentRound s + 1)) = d" and "d \<le> n"
  shows "\<exists>s' t. nextRound n env s = Some (s', t) \<and> stored_by_round s'
                \<and> futureRounds s' E = [] \<and> unat (E - CurrentRound s') \<le> d"
  using assms
proof (induction d arbitrary: n s)
  case 0
  then have "E = CurrentRound s + 1" by (simp add: unat_eq_0)
  then show ?case using "0.prems"
    by (simp add: nextRound.simps UpdateRound_def stored_by_round_def)
next
  case (Suc d)
  define \<rho> where "\<rho> = CurrentRound s + 1"
  from Suc.prems obtain m where n: "n = Suc m" and m: "d \<le> m" by (cases n) auto
  have dist: "unat (E - \<rho>) = Suc d" using Suc.prems by (simp add: \<rho>_def)
  then have ne: "\<rho> \<noteq> E" by auto
  have next_d: "unat (E - (\<rho> + 1)) = d" using dist by (rule distance_step)
  define s3 where
    "s3 = s\<lparr>CurrentRound := \<rho>, RoundChan_sent := RoundChan_sent s @ [\<rho>],
             StepEventCollector := Clear env (StepEventCollector s)\<rparr>"
  have loop: "\<exists>u' t. range_currentEvents (Suc m) env L u = Some (u', t) \<and> stored_by_round u'
                \<and> futureRounds u' E = [] \<and> unat (E - CurrentRound u') \<le> Suc d"
    if "\<forall>e \<in> set L. Round_ev e = \<rho>" and "stored_by_round u" and "futureRounds u E = []"
      and "unat (E - CurrentRound u) \<le> Suc d" for L u
    using that
  proof (induction L arbitrary: u)
    case Nil
    then show ?case by simp
  next
    case (Cons e L)
    have re: "Round_ev e = \<rho>" using Cons.prems(1) by simp
    have "\<exists>u1 t1. Process (Suc m) env e u = Some (u1, t1) \<and> stored_by_round u1
                \<and> futureRounds u1 E = [] \<and> unat (E - CurrentRound u1) \<le> Suc d"
    proof (cases "CurrentRound u = \<rho>")
      case False
      then have "CurrentRound u \<noteq> Round_ev e" using re by simp
      from Process_other_round [OF this, of m env] show ?thesis
      proof
        assume "Process (Suc m) env e u = Some (u, [e])"
        then show ?thesis using Cons.prems by auto
      next
        assume p: "Process (Suc m) env e u =
           Some (u\<lparr>futureRounds := (futureRounds u)(Round_ev e := futureRounds u (Round_ev e) @ [e])\<rparr>,
                 [e])"
        show ?thesis
          using p stored_by_round_store [OF Cons.prems(2), of e] Cons.prems(3,4) re ne
          by auto
      qed
    next
      case True
      then have "CurrentRound u = Round_ev e" using re by simp
      from Process_same_round [OF this, of m env] show ?thesis
      proof (elim disjE)
        assume "Process (Suc m) env e u = Some (u, [e])"
        then show ?thesis using Cons.prems by auto
      next
        assume p: "Process (Suc m) env e u =
           Some (u\<lparr>RepropagationChannel := RepropagationChannel u @ [e],
                    StepEventCollector := Store env e (Step_ev e) (StepEventCollector u)\<rparr>, [e])"
        show ?thesis using p Cons.prems(2,3,4) by (auto simp: stored_by_round_def)
      next
        assume p: "Process (Suc m) env e u =
           (case nextRound m env u of None \<Rightarrow> None | Some (s', evs) \<Rightarrow> Some (s', e # evs))"
        have "unat (E - (CurrentRound u + 1)) = d" using next_d True by simp
        from Suc.IH [OF Cons.prems(2) Cons.prems(3) this m]
        obtain u1 t1 where "nextRound m env u = Some (u1, t1)" "stored_by_round u1"
          "futureRounds u1 E = []" "unat (E - CurrentRound u1) \<le> d"
          by blast
        then show ?thesis using p by auto
      qed
    qed
    then obtain u1 t1 where p1: "Process (Suc m) env e u = Some (u1, t1)"
      and i1: "stored_by_round u1" "futureRounds u1 E = []" "unat (E - CurrentRound u1) \<le> Suc d"
      by blast
    have "\<forall>e \<in> set L. Round_ev e = \<rho>" using Cons.prems(1) by simp
    from Cons.IH [OF this i1] obtain u2 t2 where
      "range_currentEvents (Suc m) env L u1 = Some (u2, t2)" "stored_by_round u2"
      "futureRounds u2 E = []" "unat (E - CurrentRound u2) \<le> Suc d"
      by blast
    then show ?case using p1 by auto
  qed
  have k3: "stored_by_round s3" using Suc.prems(1) by (simp add: s3_def stored_by_round_def)
  have f3: "futureRounds s3 E = []" using Suc.prems(2) by (simp add: s3_def)
  have d3: "unat (E - CurrentRound s3) \<le> Suc d" using dist by (simp add: s3_def)
  have l3: "\<forall>e \<in> set (futureRounds s3 \<rho>). Round_ev e = \<rho>"
    using k3 by (simp add: stored_by_round_def)
  have "nextRound n env s = range_currentEvents (Suc m) env (futureRounds s3 \<rho>) s3"
    by (simp add: nextRound.simps UpdateRound_def Let_def s3_def \<rho>_def n)
  then show ?case using loop [OF l3 k3 f3 d3] by simp
qed

lemma stored_by_round_new: "stored_by_round (newSigSetCollector r)"
  by (simp add: stored_by_round_def newSigSetCollector_def)

lemma stored_by_round_range:
  assumes step: "\<And>ev s s' t. Process n env ev s = Some (s', t) \<Longrightarrow> stored_by_round s
                   \<Longrightarrow> stored_by_round s'"
  shows "range_currentEvents n env evs s = Some (s', t) \<Longrightarrow> stored_by_round s
           \<Longrightarrow> stored_by_round s'"
proof (induction evs arbitrary: s t)
  case Nil
  then show ?case by simp
next
  case (Cons e evs)
  from Cons.prems(1) obtain s1 t1 t2 where
    p: "Process n env e s = Some (s1, t1)" and
    r: "range_currentEvents n env evs s1 = Some (s', t2)"
    by (auto split: option.splits)
  from step [OF p Cons.prems(2)] have "stored_by_round s1" .
  with r show ?case by (rule Cons.IH)
qed

lemma stored_by_round_Process:
  "Process n env ev s = Some (s', t) \<Longrightarrow> stored_by_round s \<Longrightarrow> stored_by_round s'"
proof (induction n arbitrary: ev s s' t)
  case 0
  then show ?case by simp
next
  case (Suc n)
  have nr: "stored_by_round u'" if "nextRound n env u = Some (u', tr)" "stored_by_round u" for u u' tr
  proof -
    let ?u3 = "u\<lparr>CurrentRound := CurrentRound u + 1,
                  RoundChan_sent := RoundChan_sent u @ [CurrentRound u + 1],
                  StepEventCollector := Clear env (StepEventCollector u)\<rparr>"
    have "range_currentEvents n env (futureRounds ?u3 (CurrentRound ?u3)) ?u3 = Some (u', tr)"
      using that(1) by (simp add: nextRound.simps UpdateRound_def Let_def)
    moreover have "stored_by_round ?u3" using that(2) by (simp add: stored_by_round_def)
    ultimately show ?thesis using stored_by_round_range [of n env] Suc.IH by blast
  qed
  from Suc.prems show ?case
    by (auto simp: Process_Suc stored_by_round_store split: if_splits option.splits
          intro: nr) (auto simp: stored_by_round_def)
qed

text \<open>
  C4, as stated, fails in its bound: the quorum only sizes the capacity of a new slice,
  and \<^verbatim>\<open>append\<close> grows past it. With a quorum of 2, three events of round 7 that arrive
  in round 5 are all stored under round 7.
\<close>

theorem futureRounds_exceed_quorum:
  "Quorum_committee (collector_parameters_q 2) = 2
   \<and> Process 1 (collector_parameters_q 2) (event_at 7 1) (newSigSetCollector 5)
       = Some ((newSigSetCollector 5)\<lparr>futureRounds := (\<lambda>r. [])(7 := [event_at 7 1])\<rparr>,
               [event_at 7 1])
   \<and> Process 1 (collector_parameters_q 2) (event_at 7 2)
         ((newSigSetCollector 5)\<lparr>futureRounds := (\<lambda>r. [])(7 := [event_at 7 1])\<rparr>)
       = Some ((newSigSetCollector 5)
                 \<lparr>futureRounds := (\<lambda>r. [])(7 := [event_at 7 1, event_at 7 2])\<rparr>,
               [event_at 7 2])
   \<and> Process 1 (collector_parameters_q 2) (event_at 7 3)
         ((newSigSetCollector 5)
            \<lparr>futureRounds := (\<lambda>r. [])(7 := [event_at 7 1, event_at 7 2])\<rparr>)
       = Some ((newSigSetCollector 5)
                 \<lparr>futureRounds := (\<lambda>r. [])(7 := [event_at 7 1, event_at 7 2, event_at 7 3])\<rparr>,
               [event_at 7 3])
   \<and> int (length [event_at 7 1, event_at 7 2, event_at 7 3])
       > Quorum_committee (collector_parameters_q 2)"
  by (simp add: Process_Suc collector_parameters_q_def event_at_def newSigSetCollector_def)

text \<open>
  C4, amended: an event whose round is less than the current round is dropped, the
  collector stays as it is. An event whose round is greater than the current round, and
  which the validation does not skip, is appended to the events stored for its round
  (there is no bound on their number). The stored events stay filed under their own
  rounds, from the new collector on. When the current round moves to the next one, every
  event stored for that round is processed again; the call returns, within a depth of
  recursion equal to the distance to a round \<open>E\<close> that has no stored events.
\<close>

theorem Process_by_round:
  "(Round_ev ev < CurrentRound s \<longrightarrow> Process (Suc n) env ev s = Some (s, [ev]))
   \<and> (CurrentRound s < Round_ev ev \<and> \<not> ShouldBeSkipped env ev \<longrightarrow>
        Process (Suc n) env ev s =
          Some (s\<lparr>futureRounds :=
                    (futureRounds s)(Round_ev ev := futureRounds s (Round_ev ev) @ [ev])\<rparr>, [ev]))
   \<and> stored_by_round (newSigSetCollector r)
   \<and> (\<forall>s' t. stored_by_round s \<and> Process n env ev s = Some (s', t) \<longrightarrow> stored_by_round s')
   \<and> (stored_by_round s \<and> futureRounds s E = [] \<longrightarrow>
        (\<exists>s' t. nextRound (unat (E - (CurrentRound s + 1))) env s = Some (s', t)
                \<and> set (futureRounds s (CurrentRound s + 1)) \<subseteq> set t))"
proof (intro conjI impI allI)
  assume "Round_ev ev < CurrentRound s"
  then show "Process (Suc n) env ev s = Some (s, [ev])" by (rule Process_dropped)
next
  assume "CurrentRound s < Round_ev ev \<and> \<not> ShouldBeSkipped env ev"
  then show "Process (Suc n) env ev s =
          Some (s\<lparr>futureRounds :=
                    (futureRounds s)(Round_ev ev := futureRounds s (Round_ev ev) @ [ev])\<rparr>, [ev])"
    by (simp add: Process_future)
next
  show "stored_by_round (newSigSetCollector r)" by (rule stored_by_round_new)
next
  fix s' t assume "stored_by_round s \<and> Process n env ev s = Some (s', t)"
  then show "stored_by_round s'" using stored_by_round_Process by blast
next
  assume a: "stored_by_round s \<and> futureRounds s E = []"
  then obtain s' t where
    n: "nextRound (unat (E - (CurrentRound s + 1))) env s = Some (s', t)"
    using nextRound_returns [of s E "unat (E - (CurrentRound s + 1))"
            "unat (E - (CurrentRound s + 1))" env]
    by auto
  from nextRound_trace [OF n] n
  show "\<exists>s' t. nextRound (unat (E - (CurrentRound s + 1))) env s = Some (s', t)
                \<and> set (futureRounds s (CurrentRound s + 1)) \<subseteq> set t"
    by blast
qed


theorem Process_by_round_witness:
  "Round_ev (event_at 3 1) < CurrentRound (newSigSetCollector 5 :: unit sigSetCollector)
   \<and> Process (Suc 0) (collector_parameters_q 1) (event_at 3 1) (newSigSetCollector 5)
       = Some (newSigSetCollector 5, [event_at 3 1])
   \<and> CurrentRound (newSigSetCollector 5 :: unit sigSetCollector) < Round_ev (event_at 7 1)
   \<and> \<not> ShouldBeSkipped (collector_parameters_q 1) (event_at 7 1)
   \<and> Process (Suc 0) (collector_parameters_q 1) (event_at 7 1) (newSigSetCollector 5)
       = Some ((newSigSetCollector 5)\<lparr>futureRounds := (\<lambda>r. [])(7 := [event_at 7 1])\<rparr>,
               [event_at 7 1])
   \<and> stored_by_round ((newSigSetCollector 5)
         \<lparr>futureRounds := (\<lambda>r. [])(6 := [event_at 6 1], 7 := [event_at 7 1])\<rparr>)
   \<and> futureRounds ((newSigSetCollector 5)
         \<lparr>futureRounds := (\<lambda>r. [])(6 := [event_at 6 1], 7 := [event_at 7 1])\<rparr>) 8 = []
   \<and> (\<exists>s' t. nextRound 2 (collector_parameters_q 1)
                 ((newSigSetCollector 5)
                    \<lparr>futureRounds := (\<lambda>r. [])(6 := [event_at 6 1], 7 := [event_at 7 1])\<rparr>)
               = Some (s', t)
              \<and> event_at 6 1 \<in> set t)"
proof -
  let ?env = "collector_parameters_q 1"
  let ?s0 = "newSigSetCollector 5 :: unit sigSetCollector"
  let ?s2 = "?s0\<lparr>futureRounds := (\<lambda>r. [])(6 := [event_at 6 1], 7 := [event_at 7 1])\<rparr>"
  have a: "Round_ev (event_at 3 1) < CurrentRound ?s0"
    by (simp add: event_at_def newSigSetCollector_def)
  have b: "CurrentRound ?s0 < Round_ev (event_at 7 1) \<and> \<not> ShouldBeSkipped ?env (event_at 7 1)"
    by (simp add: event_at_def newSigSetCollector_def collector_parameters_q_def)
  have d: "stored_by_round ?s2 \<and> futureRounds ?s2 8 = []"
    by (simp add: stored_by_round_def event_at_def newSigSetCollector_def)
  have f: "futureRounds ?s0 (Round_ev (event_at 7 1)) = []" "Round_ev (event_at 7 1) = 7"
    "futureRounds ?s0 = (\<lambda>r. [])"
    by (simp_all add: newSigSetCollector_def event_at_def)
  have g: "unat (8 - (CurrentRound ?s2 + 1)) = 2" "futureRounds ?s2 (CurrentRound ?s2 + 1) = [event_at 6 1]"
    by (simp_all add: newSigSetCollector_def)
  note t1 = Process_by_round [of "event_at 3 1" ?s0 0 ?env 5 8]
  note t2 = Process_by_round [of "event_at 7 1" ?s0 0 ?env 5 8]
  note t3 = Process_by_round [of "event_at 7 1" ?s2 0 ?env 5 8]
  have r1: "Process (Suc 0) ?env (event_at 3 1) ?s0 = Some (?s0, [event_at 3 1])"
    using t1 a by blast
  have r2: "Process (Suc 0) ?env (event_at 7 1) ?s0
       = Some (?s0\<lparr>futureRounds := (\<lambda>r. [])(7 := [event_at 7 1])\<rparr>, [event_at 7 1])"
  proof -
    from t2 b have "Process (Suc 0) ?env (event_at 7 1) ?s0
       = Some (?s0\<lparr>futureRounds := (futureRounds ?s0)
                 (Round_ev (event_at 7 1) := futureRounds ?s0 (Round_ev (event_at 7 1)) @ [event_at 7 1])\<rparr>,
               [event_at 7 1])"
      by blast
    then show ?thesis by (simp add: f)
  qed
  have r3: "\<exists>s' t. nextRound 2 ?env ?s2 = Some (s', t) \<and> event_at 6 1 \<in> set t"
  proof -
    from t3 d have "\<exists>s' t. nextRound (unat (8 - (CurrentRound ?s2 + 1))) ?env ?s2 = Some (s', t)
                \<and> set (futureRounds ?s2 (CurrentRound ?s2 + 1)) \<subseteq> set t"
      by blast
    then show ?thesis unfolding g by simp
  qed
  show ?thesis using a b d r1 r2 r3 by blast
qed

end
